theory Spec2Isabelle
  imports Complex_Main "HOL-Library.Multiset" "HOL-Library.Log_Nat"
begin

section \<open>JavaScript numbers\<close>

text \<open>
  The engine computes with JavaScript \<open>number\<close>s, the IEEE 754 binary64 doubles. A
  \<open>number\<close> is modelled as a finite real, or one of the three special values: positive
  infinity, negative infinity and NaN. Every arithmetic operation rounds its exact result
  to the nearest double, ties to even, and overflows to an infinity, as the hardware
  does; the special values follow IEEE 754 (anything with NaN is NaN, \<open>0 / 0\<close> is NaN,
  \<open>Infinity - Infinity\<close> is NaN, every comparison with NaN is false). Zero has no sign
  in the model (a zero divisor counts as \<open>+0\<close>, which is what \<open>Number(0n)\<close> gives).
\<close>

datatype jsnum = Fin real | PInf | NInf | NaN

subsection \<open>Rounding to the nearest double\<close>

text \<open>
  The binary exponent of a positive real \<open>x\<close>: the \<open>k\<close> with
  \<open>2 ^ k \<le> x < 2 ^ (k + 1)\<close>, from the bit length of the integer part of \<open>x\<close>, or of
  \<open>1 / x\<close> when \<open>x < 1\<close>.
\<close>

definition expo :: "real \<Rightarrow> int" where
  "expo x =
     (if 1 \<le> x then bitlen \<lfloor>x\<rfloor> - 1
      else (let j = bitlen \<lfloor>1 / x\<rfloor> - 1
            in if x * 2 powi j = 1 then - j else - j - 1))"

text \<open>The nearest integer, a tie going to the even one.\<close>

definition round_half_even :: "real \<Rightarrow> int" where
  "round_half_even y =
     (let f = \<lfloor>y\<rfloor>; d = y - of_int f
      in if d < 1 / 2 then f
         else if 1 / 2 < d then f + 1
         else if even f then f else f + 1)"

text \<open>
  The distance of neighbouring doubles around \<open>x\<close>: 52 binary places below the exponent
  of \<open>x\<close>, and \<open>2 ^ -1074\<close> in the subnormal range.
\<close>

definition ulp :: "real \<Rightarrow> real" where
  "ulp x = 2 powi (max (expo \<bar>x\<bar>) (- 1022) - 52)"

text \<open>
  The double nearest to a real; an infinity when the rounded value reaches \<open>2 ^ 1024\<close>.
  A decimal literal of the source denotes the double nearest to it.
\<close>

definition to_double :: "real \<Rightarrow> jsnum" where
  "to_double x =
     (if x = 0 then Fin 0
      else (let r = of_int (round_half_even (\<bar>x\<bar> / ulp x)) * ulp x
            in if 2 ^ 1024 \<le> r then (if 0 < x then PInf else NInf)
               else Fin (if 0 < x then r else - r)))"

text \<open>The reals that are whole multiples of \<open>2 ^ -1074\<close>; every double is one.\<close>

definition grid :: real where
  "grid = 2 ^ 1074"

definition on_grid :: "real \<Rightarrow> bool" where
  "on_grid r = (of_int \<lfloor>r * grid\<rfloor> = r * grid)"

subsection \<open>Arithmetic and comparison\<close>

fun js_neg :: "jsnum \<Rightarrow> jsnum" where
  "js_neg (Fin a) = Fin (- a)"
| "js_neg PInf = NInf"
| "js_neg NInf = PInf"
| "js_neg NaN = NaN"

fun js_add :: "jsnum \<Rightarrow> jsnum \<Rightarrow> jsnum" where
  "js_add NaN _ = NaN"
| "js_add _ NaN = NaN"
| "js_add (Fin a) (Fin b) = to_double (a + b)"
| "js_add PInf NInf = NaN"
| "js_add NInf PInf = NaN"
| "js_add PInf _ = PInf"
| "js_add _ PInf = PInf"
| "js_add NInf _ = NInf"
| "js_add _ NInf = NInf"

definition js_sub :: "jsnum \<Rightarrow> jsnum \<Rightarrow> jsnum" where
  "js_sub a b = js_add a (js_neg b)"

fun js_mul :: "jsnum \<Rightarrow> jsnum \<Rightarrow> jsnum" where
  "js_mul NaN _ = NaN"
| "js_mul _ NaN = NaN"
| "js_mul (Fin a) (Fin b) = to_double (a * b)"
| "js_mul (Fin a) PInf = (if a = 0 then NaN else if 0 < a then PInf else NInf)"
| "js_mul (Fin a) NInf = (if a = 0 then NaN else if 0 < a then NInf else PInf)"
| "js_mul PInf (Fin b) = (if b = 0 then NaN else if 0 < b then PInf else NInf)"
| "js_mul NInf (Fin b) = (if b = 0 then NaN else if 0 < b then NInf else PInf)"
| "js_mul PInf PInf = PInf"
| "js_mul NInf NInf = PInf"
| "js_mul PInf NInf = NInf"
| "js_mul NInf PInf = NInf"

fun js_div :: "jsnum \<Rightarrow> jsnum \<Rightarrow> jsnum" where
  "js_div NaN _ = NaN"
| "js_div _ NaN = NaN"
| "js_div (Fin a) (Fin b) =
     (if b = 0 then (if a = 0 then NaN else if 0 < a then PInf else NInf)
      else to_double (a / b))"
| "js_div (Fin a) PInf = Fin 0"
| "js_div (Fin a) NInf = Fin 0"
| "js_div PInf (Fin b) = (if 0 \<le> b then PInf else NInf)"
| "js_div NInf (Fin b) = (if 0 \<le> b then NInf else PInf)"
| "js_div PInf _ = NaN"
| "js_div NInf _ = NaN"

text \<open>\<open>a > b\<close> on numbers: false as soon as one side is NaN.\<close>

fun js_gt :: "jsnum \<Rightarrow> jsnum \<Rightarrow> bool" where
  "js_gt (Fin a) (Fin b) = (b < a)"
| "js_gt NaN _ = False"
| "js_gt _ NaN = False"
| "js_gt PInf PInf = False"
| "js_gt PInf _ = True"
| "js_gt NInf _ = False"
| "js_gt (Fin a) NInf = True"
| "js_gt (Fin a) PInf = False"

text \<open>\<open>a <= b\<close> on numbers: \<open>a < b\<close> or \<open>a == b\<close>, false as soon as one side is NaN.\<close>

definition js_le :: "jsnum \<Rightarrow> jsnum \<Rightarrow> bool" where
  "js_le a b = (a \<noteq> NaN \<and> b \<noteq> NaN \<and> \<not> js_gt a b)"

text \<open>\<open>Math.max(a, b)\<close> and \<open>Math.min(a, b)\<close>: NaN as soon as one argument is NaN.\<close>

definition Math_max :: "jsnum \<Rightarrow> jsnum \<Rightarrow> jsnum" where
  "Math_max a b = (if a = NaN \<or> b = NaN then NaN else if js_gt b a then b else a)"

definition Math_min :: "jsnum \<Rightarrow> jsnum \<Rightarrow> jsnum" where
  "Math_min a b = (if a = NaN \<or> b = NaN then NaN else if js_gt a b then b else a)"

text \<open>\<open>Number(x)\<close> of a bigint: the double nearest to it.\<close>

definition Number :: "int \<Rightarrow> jsnum" where
  "Number x = to_double (of_int x)"

text \<open>A number of the closed unit interval: finite, at least 0 and at most 1.\<close>

definition in_unit :: "jsnum \<Rightarrow> bool" where
  "in_unit x = (case x of Fin r \<Rightarrow> 0 \<le> r \<and> r \<le> 1 | _ \<Rightarrow> False)"

section \<open>The data of the consensus engine\<close>

record ConsensusNode =
  id_node :: string
  weight :: jsnum
  stake :: int
  reputation :: jsnum
  lastProposal :: jsnum
  neuralSignature :: string

datatype TransactionType = MODEL_UPDATE | KNOWLEDGE_SYNC | REPUTATION_UPDATE | STAKE_CHANGE

record Transaction =
  id_tx :: string
  type_tx :: TransactionType
  data_tx :: string
  signature :: string

record ConsensusBlock =
  height :: jsnum
  timestamp :: jsnum
  previousHash :: string
  transactions :: "Transaction list"
  neuralStateRoot :: string
  proposer :: string
  signatures :: "(string \<times> string) list"

text \<open>
  The \<open>nodes\<close> map of the engine, a JavaScript \<open>Map\<close>: its entries in insertion order.
  A \<open>Map\<close> holds a key once, so the keys of a registry are distinct.
\<close>

type_synonym registry = "(string \<times> ConsensusNode) list"

definition values_of :: "registry \<Rightarrow> ConsensusNode list" where
  "values_of reg = map snd reg"

section \<open>Epoch updates of weight and reputation\<close>

text \<open>\<open>calculateNewWeight(node, performance)\<close>.\<close>

definition calculateNewWeight :: "ConsensusNode \<Rightarrow> jsnum \<Rightarrow> jsnum" where
  "calculateNewWeight node performance =
     (let baseWeight = weight node;
          performanceImpact = js_sub performance (to_double 0.5);
          maxAdjustment = to_double 0.1
      in Math_max (Fin 0) (Math_min (Fin 1)
           (js_add baseWeight (js_mul performanceImpact maxAdjustment))))"

text \<open>\<open>updateReputation(node, alignment)\<close>.\<close>

definition updateReputation :: "ConsensusNode \<Rightarrow> jsnum \<Rightarrow> jsnum" where
  "updateReputation node alignment =
     (let currentRep = reputation node;
          maxChange = to_double 0.1;
          change = js_mul (js_sub alignment (to_double 0.5)) maxChange
      in Math_max (Fin 0) (Math_min (Fin 1) (js_add currentRep change)))"

section \<open>Failures\<close>

text \<open>
  A value thrown by a call, or the reason of a rejected promise, named by its message.
  A result \<open>Inl e\<close> is a call that threw \<open>e\<close>; \<open>Inr v\<close> is a call that returned \<open>v\<close>.
\<close>

datatype error = Thrown string

section \<open>Proposer selection\<close>

text \<open>\<open>getTotalStake()\<close>: the bigint sum of the stakes, from \<open>0n\<close>.\<close>

definition getTotalStake :: "registry \<Rightarrow> int" where
  "getTotalStake reg = foldl (\<lambda>total node. total + stake node) 0 (values_of reg)"

text \<open>\<open>calculatePriority(node)\<close>.\<close>

definition calculatePriority :: "registry \<Rightarrow> ConsensusNode \<Rightarrow> jsnum" where
  "calculatePriority reg node =
     (let stakeWeight = to_double 0.6;
          reputationWeight = to_double 0.4;
          normalizedStake = js_div (Number (stake node)) (Number (getTotalStake reg))
      in js_add (js_mul normalizedStake stakeWeight)
                (js_mul (reputation node) reputationWeight))"

text \<open>
  \<open>Array.prototype.sort(cmp)\<close>. The sort is stable, and two elements are exchanged only
  when the comparator says so: for \<open>x\<close> standing before \<open>y\<close>, \<open>y\<close> moves in front of
  \<open>x\<close> when \<open>cmp(x, y) > 0\<close>; a result that is negative, zero or NaN leaves \<open>x\<close> in
  front. The model is the stable insertion sort; every stable sort gives the same list
  when the comparator is a consistent ordering (for an inconsistent comparator
  JavaScript leaves the resulting order to the implementation).
\<close>

fun js_insert :: "('a \<Rightarrow> 'a \<Rightarrow> jsnum) \<Rightarrow> 'a \<Rightarrow> 'a list \<Rightarrow> 'a list" where
  "js_insert cmp x [] = [x]"
| "js_insert cmp x (y # ys) =
     (if js_gt (cmp x y) (Fin 0) then y # js_insert cmp x ys else x # y # ys)"

definition js_sort :: "('a \<Rightarrow> 'a \<Rightarrow> jsnum) \<Rightarrow> 'a list \<Rightarrow> 'a list" where
  "js_sort cmp xs = foldr (js_insert cmp) xs []"

text \<open>
  The \<open>sortedNodes\<close> of \<open>isProposer\<close>: the values of the map, sorted with the comparator
  \<open>(a, b) => calculatePriority(b) - calculatePriority(a)\<close>.
\<close>

definition sortedNodes :: "registry \<Rightarrow> ConsensusNode list" where
  "sortedNodes reg =
     js_sort (\<lambda>a b. js_sub (calculatePriority reg b) (calculatePriority reg a))
       (values_of reg)"

text \<open>
  \<open>s % size\<close> for a slot counter \<open>s = Math.floor(now / 1000)\<close> (a natural number, the
  clock being past 1970): \<open>None\<close> stands for the NaN that \<open>s % 0\<close> is.
\<close>

definition slot_index :: "nat \<Rightarrow> nat \<Rightarrow> nat option" where
  "slot_index s size_n = (if size_n = 0 then None else Some (s mod size_n))"

text \<open>\<open>xs[i]\<close>: \<open>None\<close> stands for \<open>undefined\<close>, read at NaN or past the end.\<close>

definition array_get :: "'a list \<Rightarrow> nat option \<Rightarrow> 'a option" where
  "array_get xs i =
     (case i of None \<Rightarrow> None
      | Some k \<Rightarrow> if k < length xs then Some (xs ! k) else None)"

text \<open>The node \<open>sortedNodes[slot]\<close> that \<open>isProposer\<close> compares with the local node.\<close>

definition selectedNode :: "nat \<Rightarrow> registry \<Rightarrow> ConsensusNode option" where
  "selectedNode s reg =
     (let slot = slot_index s (length reg)
      in array_get (sortedNodes reg) slot)"

text \<open>
  \<open>isProposer()\<close>, at clock \<open>now\<close> (milliseconds) and with \<open>nodeId\<close> the answer of
  \<open>mesh.getNodeId()\<close>. The function has no \<open>throw\<close>: \<open>sortedNodes[slot]?.id\<close> is
  \<open>undefined\<close> when there is no such node, and \<open>undefined === nodeId\<close> is false.
\<close>

definition isProposer :: "nat \<Rightarrow> string \<Rightarrow> registry \<Rightarrow> error + bool" where
  "isProposer now nodeId reg =
     (case selectedNode (now div 1000) reg of
        None \<Rightarrow> Inr False
      | Some node \<Rightarrow> Inr (id_node node = nodeId))"

text \<open>The finite value of a number (0 for the special values).\<close>

fun fin_val :: "jsnum \<Rightarrow> real" where
  "fin_val (Fin r) = r"
| "fin_val _ = 0"

definition is_fin :: "jsnum \<Rightarrow> bool" where
  "is_fin x = (case x of Fin _ \<Rightarrow> True | _ \<Rightarrow> False)"

section \<open>Block assembly\<close>

record EngineState =
  nodes :: registry
  currentBlock :: "ConsensusBlock option"
  blockHeight :: jsnum

text \<open>\<open>collectPendingTransactions()\<close>.\<close>

definition collectPendingTransactions :: "Transaction list" where
  "collectPendingTransactions = []"

text \<open>
  \<open>proposeBlock()\<close> at clock \<open>now\<close>, with \<open>stateRoot\<close> the outcome of
  \<open>mesh.computeStateRoot()\<close> and \<open>nodeId\<close> the answer of \<open>mesh.getNodeId()\<close>. The
  result is the block handed to \<open>broadcastBlock\<close>.
\<close>

definition proposeBlock ::
  "jsnum \<Rightarrow> error + string \<Rightarrow> string \<Rightarrow> EngineState \<Rightarrow> error + ConsensusBlock" where
  "proposeBlock now stateRoot nodeId st =
     (case stateRoot of
        Inl e \<Rightarrow> Inl e
      | Inr digest \<Rightarrow>
          Inr \<lparr> height = js_add (blockHeight st) (Fin 1),
                timestamp = now,
                previousHash =
                  (case currentBlock st of
                     None \<Rightarrow> []
                   | Some b \<Rightarrow> if previousHash b = [] then [] else previousHash b),
                transactions = collectPendingTransactions,
                neuralStateRoot = digest,
                proposer = nodeId,
                signatures = [] \<rparr>)"

section \<open>The epoch transition\<close>

text \<open>
  \<open>updateNodeWeights()\<close>, with \<open>evaluate\<close> the outcome of awaiting
  \<open>evaluateNodePerformance(node)\<close>. The loop mutates the nodes in place and has no
  \<open>try\<close>: a rejected evaluation leaves the loop, the nodes before it updated and the
  others as they were. The result is the map after the call, and the error the call
  threw, if any.
\<close>

fun updateNodeWeights ::
  "(ConsensusNode \<Rightarrow> error + jsnum) \<Rightarrow> registry \<Rightarrow> registry \<times> error option" where
  "updateNodeWeights evaluate [] = ([], None)"
| "updateNodeWeights evaluate ((k, node) # rest) =
     (case evaluate node of
        Inl e \<Rightarrow> ((k, node) # rest, Some e)
      | Inr performance \<Rightarrow>
          (case updateNodeWeights evaluate rest of
             (rest', r) \<Rightarrow>
               ((k, node\<lparr>weight := calculateNewWeight node performance\<rparr>) # rest', r)))"

text \<open>\<open>evaluateNodePerformance(node)\<close> as the source has it.\<close>

definition evaluateNodePerformance :: "ConsensusNode \<Rightarrow> error + jsnum" where
  "evaluateNodePerformance node = Inr (Fin 0)"

text \<open>The loop of \<open>recalculateReputations()\<close>, over \<open>calculateNeuralAlignment\<close>.\<close>

fun reputationLoop ::
  "(ConsensusNode \<Rightarrow> error + jsnum) \<Rightarrow> registry \<Rightarrow> registry \<times> error option" where
  "reputationLoop align [] = ([], None)"
| "reputationLoop align ((k, node) # rest) =
     (case align node of
        Inl e \<Rightarrow> ((k, node) # rest, Some e)
      | Inr neuralAlignment \<Rightarrow>
          (case reputationLoop align rest of
             (rest', r) \<Rightarrow>
               ((k, node\<lparr>reputation := updateReputation node neuralAlignment\<rparr>) # rest', r)))"

text \<open>
  \<open>recalculateReputations()\<close>, with \<open>consensus\<close> the outcome of
  \<open>mesh.computeConsensus()\<close> and \<open>align\<close> that of \<open>calculateNeuralAlignment\<close>.
\<close>

definition recalculateReputations ::
  "error + 'c \<Rightarrow> (ConsensusNode \<Rightarrow> 'c \<Rightarrow> error + jsnum) \<Rightarrow> registry
     \<Rightarrow> registry \<times> error option" where
  "recalculateReputations consensus align reg =
     (case consensus of
        Inl e \<Rightarrow> (reg, Some e)
      | Inr neuralConsensus \<Rightarrow> reputationLoop (\<lambda>node. align node neuralConsensus) reg)"

text \<open>\<open>calculateNeuralAlignment(node, consensus)\<close> as the source has it.\<close>

definition calculateNeuralAlignment :: "ConsensusNode \<Rightarrow> 'c \<Rightarrow> error + jsnum" where
  "calculateNeuralAlignment node consensus = Inr (Fin 0)"

text \<open>\<open>Map.prototype.delete(key)\<close>.\<close>

definition Map_delete :: "string \<Rightarrow> registry \<Rightarrow> registry" where
  "Map_delete k reg = filter (\<lambda>entry. fst entry \<noteq> k) reg"

definition maxInactivity :: jsnum where
  "maxInactivity = Fin (1000 * 60 * 60)"

text \<open>
  The loop of \<open>pruneInactiveNodes()\<close> over the entries of the map, carrying the map and
  the \<open>nodePruned\<close> events emitted so far. The loop deletes the key it is visiting only;
  a \<open>Map\<close> holds a key once, so the entries still to visit are the ones the loop
  started with.
\<close>

fun pruneLoop ::
  "jsnum \<Rightarrow> registry \<Rightarrow> registry \<times> string list \<Rightarrow> registry \<times> string list" where
  "pruneLoop now [] st = st"
| "pruneLoop now ((k, node) # todo) (reg, emitted) =
     (if js_gt (js_sub now (lastProposal node)) maxInactivity
      then pruneLoop now todo (Map_delete k reg, emitted @ [k])
      else pruneLoop now todo (reg, emitted))"

text \<open>\<open>pruneInactiveNodes()\<close> at clock \<open>now\<close>: the map after it, and the events.\<close>

definition pruneInactiveNodes :: "jsnum \<Rightarrow> registry \<Rightarrow> registry \<times> string list" where
  "pruneInactiveNodes now reg = pruneLoop now reg (reg, [])"

text \<open>
  The body of \<open>startEpochTransition\<close>: the three steps in a \<open>try\<close>, whose \<open>catch\<close> logs
  the error. The result is the map, the events and the error logged, if any.
\<close>

definition epochTransition ::
  "(ConsensusNode \<Rightarrow> error + jsnum) \<Rightarrow> error + 'c \<Rightarrow> (ConsensusNode \<Rightarrow> 'c \<Rightarrow> error + jsnum)
     \<Rightarrow> jsnum \<Rightarrow> registry \<Rightarrow> registry \<times> string list \<times> error option" where
  "epochTransition evaluate consensus align now reg =
     (case updateNodeWeights evaluate reg of
        (reg1, Some e) \<Rightarrow> (reg1, [], Some e)
      | (reg1, None) \<Rightarrow>
          (case recalculateReputations consensus align reg1 of
             (reg2, Some e) \<Rightarrow> (reg2, [], Some e)
           | (reg2, None) \<Rightarrow>
               (case pruneInactiveNodes now reg2 of
                  (reg3, emitted) \<Rightarrow> (reg3, emitted, None))))"

section \<open>Metrics\<close>

text \<open>\<open>calculateAverageReputation()\<close>.\<close>

definition calculateAverageReputation :: "registry \<Rightarrow> jsnum" where
  "calculateAverageReputation reg =
     (let ns = values_of reg
      in if length ns = 0 then Fin 0
         else js_div (foldl (\<lambda>sum node. js_add sum (reputation node)) (Fin 0) ns)
                     (Fin (real (length ns))))"

text \<open>\<open>calculateConsensusHealth()\<close>.\<close>

definition calculateConsensusHealth :: "registry \<Rightarrow> jsnum" where
  "calculateConsensusHealth reg =
     (let activeStake =
            foldl (\<lambda>sum node. sum + stake node) 0
              (filter (\<lambda>node. js_gt (reputation node) (to_double 0.5)) (values_of reg))
      in js_div (Number activeStake) (Number (getTotalStake reg)))"

section \<open>Notions the properties are stated with\<close>

text \<open>The test of the pruning loop: \<open>now - node.lastProposal > maxInactivity\<close>.\<close>

definition is_inactive :: "jsnum \<Rightarrow> ConsensusNode \<Rightarrow> bool" where
  "is_inactive now node = js_gt (js_sub now (lastProposal node)) maxInactivity"

text \<open>An entry whose evaluation returns a score.\<close>

definition succeeds :: "(ConsensusNode \<Rightarrow> error + jsnum) \<Rightarrow> string \<times> ConsensusNode \<Rightarrow> bool" where
  "succeeds evaluate entry = (case evaluate (snd entry) of Inl _ \<Rightarrow> False | Inr _ \<Rightarrow> True)"

text \<open>An entry after its weight, or its reputation, was assigned from the score \<open>v\<close>.\<close>

definition with_weight :: "string \<times> ConsensusNode \<Rightarrow> jsnum \<Rightarrow> string \<times> ConsensusNode" where
  "with_weight entry v = (fst entry, (snd entry)\<lparr>weight := calculateNewWeight (snd entry) v\<rparr>)"

definition with_reputation :: "string \<times> ConsensusNode \<Rightarrow> jsnum \<Rightarrow> string \<times> ConsensusNode" where
  "with_reputation entry v =
     (fst entry, (snd entry)\<lparr>reputation := updateReputation (snd entry) v\<rparr>)"

section \<open>Sample registries and states\<close>

definition sample_node :: "string \<Rightarrow> int \<Rightarrow> jsnum \<Rightarrow> jsnum \<Rightarrow> ConsensusNode" where
  "sample_node name amount rep seen =
     \<lparr> id_node = name, weight = Fin 0.5, stake = amount, reputation = rep,
       lastProposal = seen, neuralSignature = [] \<rparr>"

text \<open>Three participants with the stakes 100, 200 and 300 and the reputation 1.\<close>

definition reg_stakes :: registry where
  "reg_stakes =
     [(''P1'', sample_node ''P1'' 100 (Fin 1) (Fin 0)),
      (''P2'', sample_node ''P2'' 200 (Fin 1) (Fin 0)),
      (''P3'', sample_node ''P3'' 300 (Fin 1) (Fin 0))]"

text \<open>Two participants of equal stake and reputation, in both insertion orders.\<close>

definition reg_tie_ba :: registry where
  "reg_tie_ba =
     [(''b'', sample_node ''b'' 50 (Fin 1) (Fin 0)),
      (''a'', sample_node ''a'' 50 (Fin 1) (Fin 0))]"

definition reg_tie_ab :: registry where
  "reg_tie_ab =
     [(''a'', sample_node ''a'' 50 (Fin 1) (Fin 0)),
      (''b'', sample_node ''b'' 50 (Fin 1) (Fin 0))]"

text \<open>
  Two participants whose priorities are both 0.4 over the reals: the stake 2 of 3 with the
  reputation 0, and the stake 1 of 3 with the reputation 0.5.
\<close>

definition reg_round :: registry where
  "reg_round =
     [(''a'', sample_node ''a'' 2 (Fin 0) (Fin 0)),
      (''b'', sample_node ''b'' 1 (Fin 0.5) (Fin 0))]"

text \<open>Two participants without stake, the second of the higher reputation.\<close>

definition reg_zero_stake :: registry where
  "reg_zero_stake =
     [(''z1'', sample_node ''z1'' 0 (to_double 0.2) (Fin 0)),
      (''z2'', sample_node ''z2'' 0 (to_double 0.9) (Fin 0))]"

text \<open>
  A participant last seen 3661 seconds before the clock 3661000, and one last seen 661
  seconds before it.
\<close>

definition reg_idle :: registry where
  "reg_idle =
     [(''old'', sample_node ''old'' 10 (Fin 1) (Fin 0)),
      (''new'', sample_node ''new'' 10 (Fin 1) (Fin 3000000))]"

text \<open>An evaluation that is rejected for the participant \<open>a\<close> and gives 1 for the others.\<close>

definition evaluate_fails_a :: "ConsensusNode \<Rightarrow> error + jsnum" where
  "evaluate_fails_a node =
     (if id_node node = ''a'' then Inl (Thrown ''EvaluationUnavailable'') else Inr (Fin 1))"

text \<open>An evaluation that is rejected for the participant \<open>b\<close> and gives 1 for the others.\<close>

definition evaluate_fails_b :: "ConsensusNode \<Rightarrow> error + jsnum" where
  "evaluate_fails_b node =
     (if id_node node = ''b'' then Inl (Thrown ''EvaluationUnavailable'') else Inr (Fin 1))"

text \<open>
  A block at height 4 whose \<open>previousHash\<close> is the hash of the block at height 3, and an
  engine whose current block it is.
\<close>

definition block_four :: ConsensusBlock where
  "block_four =
     \<lparr> height = Fin 4, timestamp = Fin 4000, previousHash = ''hash-of-block-3'',
       transactions = [], neuralStateRoot = ''root-4'', proposer = ''P1'',
       signatures = [] \<rparr>"

definition state_four :: EngineState where
  "state_four = \<lparr> nodes = [], currentBlock = Some block_four, blockHeight = Fin 4 \<rparr>"

text \<open>Another block at height 4, of another proposer, state root and time.\<close>

definition block_four_other :: ConsensusBlock where
  "block_four_other =
     \<lparr> height = Fin 4, timestamp = Fin 4500, previousHash = ''hash-of-block-3'',
       transactions = [], neuralStateRoot = ''root-4b'', proposer = ''P2'',
       signatures = [] \<rparr>"

definition state_four_other :: EngineState where
  "state_four_other =
     \<lparr> nodes = [], currentBlock = Some block_four_other, blockHeight = Fin 4 \<rparr>"

section \<open>Properties of the rounding\<close>

lemma grid_pos: "0 < grid"
  by (simp add: grid_def)

lemma round_half_even_error: "\<bar>of_int (round_half_even y) - y\<bar> \<le> 1 / 2"
  unfolding round_half_even_def Let_def by (auto simp: abs_if) linarith+

lemma round_half_even_ge_floor: "\<lfloor>y\<rfloor> \<le> round_half_even y"
  unfolding round_half_even_def Let_def by auto

lemma round_half_even_pos: "1 \<le> y \<Longrightarrow> 1 \<le> round_half_even y"
  using round_half_even_ge_floor [of y] by linarith

lemma round_half_even_nonneg: "0 \<le> y \<Longrightarrow> 0 \<le> round_half_even y"
  using round_half_even_ge_floor [of y] by linarith

lemma expo_lower:
  assumes "0 < x"
  shows "2 powi expo x \<le> x"
proof (cases "1 \<le> x")
  case True
  then have pos: "0 < \<lfloor>x\<rfloor>" by linarith
  have k: "0 \<le> bitlen \<lfloor>x\<rfloor> - 1"
    using pos bitlen_eq_zero_iff [of "\<lfloor>x\<rfloor>"] bitlen_nonneg [of "\<lfloor>x\<rfloor>"] by linarith
  have "(2::int) ^ nat (bitlen \<lfloor>x\<rfloor> - 1) \<le> \<lfloor>x\<rfloor>"
    using bitlen_bounds [OF pos] by blast
  then have "(2::real) ^ nat (bitlen \<lfloor>x\<rfloor> - 1) \<le> of_int \<lfloor>x\<rfloor>"
    by (metis of_int_le_iff of_int_numeral of_int_power)
  also have "\<dots> \<le> x" by simp
  finally show ?thesis
    using True k by (simp add: expo_def power_int_nonneg_exp)
next
  case False
  let ?y = "1 / x"
  let ?j = "bitlen \<lfloor>?y\<rfloor> - 1"
  have y: "1 < ?y" using False assms by simp
  then have pos: "0 < \<lfloor>?y\<rfloor>" by linarith
  have j: "0 \<le> ?j"
    using pos bitlen_eq_zero_iff [of "\<lfloor>?y\<rfloor>"] bitlen_nonneg [of "\<lfloor>?y\<rfloor>"] by linarith
  show ?thesis
  proof (cases "x * 2 powi ?j = 1")
    case True
    have "(2::real) powi (- ?j) = 1 / 2 powi ?j"
      by (rule power_int_minus_divide)
    also have "\<dots> = x"
      using True by (simp add: field_simps)
    finally show ?thesis
      using False True by (simp add: expo_def Let_def)
  next
    case neq: False
    have "\<lfloor>?y\<rfloor> < (2::int) ^ nat (bitlen \<lfloor>?y\<rfloor>)"
      using bitlen_bounds [OF pos] by blast
    then have "\<lfloor>?y\<rfloor> + 1 \<le> (2::int) ^ nat (bitlen \<lfloor>?y\<rfloor>)" by simp
    then have "of_int (\<lfloor>?y\<rfloor> + 1) \<le> (2::real) ^ nat (bitlen \<lfloor>?y\<rfloor>)"
      by (metis of_int_le_iff of_int_numeral of_int_power)
    moreover have "?y < of_int (\<lfloor>?y\<rfloor> + 1)" by linarith
    ultimately have "?y < (2::real) ^ nat (bitlen \<lfloor>?y\<rfloor>)" by linarith
    also have "\<dots> = 2 powi (?j + 1)"
      using j by (simp add: power_int_nonneg_exp)
    finally have "1 / x < 2 powi (?j + 1)" .
    then have "1 / 2 powi (?j + 1) < x"
      using assms by (simp add: field_simps)
    moreover have "(2::real) powi (- (?j + 1)) = 1 / 2 powi (?j + 1)"
      by (rule power_int_minus_divide)
    moreover have "- (?j + 1) = - ?j - 1" by simp
    ultimately have "2 powi (- ?j - 1) \<le> x"
      by (metis less_eq_real_def)
    then show ?thesis
      using False neq by (simp add: expo_def Let_def)
  qed
qed

lemma ulp_pos: "0 < ulp x"
  by (simp add: ulp_def)

lemma ulp_small:
  assumes "x \<noteq> 0" "\<bar>x\<bar> < 2"
  shows "ulp x \<le> 1 / 2 ^ 52"
proof -
  have "2 powi expo \<bar>x\<bar> \<le> \<bar>x\<bar>"
    using assms(1) by (intro expo_lower) simp
  then have lt: "(2::real) powi expo \<bar>x\<bar> < 2 powi 1"
    using assms(2) by simp
  have "expo \<bar>x\<bar> < 1"
  proof (rule ccontr)
    assume "\<not> expo \<bar>x\<bar> < 1"
    then have "(2::real) powi 1 \<le> 2 powi expo \<bar>x\<bar>"
      by (intro power_int_increasing) simp_all
    then show False
      using lt by simp
  qed
  then have "max (expo \<bar>x\<bar>) (- 1022) - 52 \<le> - 52" by simp
  then have "(2::real) powi (max (expo \<bar>x\<bar>) (- 1022) - 52) \<le> 2 powi (- 52)"
    by (intro power_int_increasing) simp_all
  then show ?thesis
    by (simp add: ulp_def power_int_minus_divide)
qed

lemma to_double_not_NaN: "to_double x \<noteq> NaN"
  by (simp add: to_double_def Let_def)

lemma to_double_zero: "to_double 0 = Fin 0"
  by (simp add: to_double_def)

lemma to_double_error:
  assumes "\<bar>x\<bar> < 2"
  shows "\<exists>r. to_double x = Fin r \<and> \<bar>r - x\<bar> \<le> 1 / 2 ^ 53"
proof (cases "x = 0")
  case True
  then show ?thesis by (simp add: to_double_def)
next
  case False
  define u where "u = ulp x"
  define m where "m = round_half_even (\<bar>x\<bar> / u)"
  define r0 where "r0 = of_int m * u"
  have u: "0 < u" "u \<le> 1 / 2 ^ 52"
    using ulp_pos ulp_small [OF False assms] by (simp_all add: u_def)
  have "\<bar>of_int m - \<bar>x\<bar> / u\<bar> \<le> 1 / 2"
    unfolding m_def by (rule round_half_even_error)
  then have "\<bar>of_int m - \<bar>x\<bar> / u\<bar> * u \<le> 1 / 2 * u"
    using u(1) by (intro mult_right_mono) simp_all
  moreover have "\<bar>of_int m - \<bar>x\<bar> / u\<bar> * u = \<bar>(of_int m - \<bar>x\<bar> / u) * u\<bar>"
    using u(1) by (simp add: abs_mult)
  moreover have "(of_int m - \<bar>x\<bar> / u) * u = r0 - \<bar>x\<bar>"
    using u(1) by (simp add: r0_def field_simps)
  ultimately have err: "\<bar>r0 - \<bar>x\<bar>\<bar> \<le> 1 / 2 ^ 53"
    using u(2) by simp
  then have "r0 < 3"
    using assms by (simp add: abs_if split: if_splits)
  then have small: "\<not> 2 ^ 1024 \<le> r0"
    by simp
  have "to_double x = Fin (if 0 < x then r0 else - r0)"
    using False small by (simp add: to_double_def Let_def r0_def m_def u_def)
  moreover have "\<bar>(if 0 < x then r0 else - r0) - x\<bar> \<le> 1 / 2 ^ 53"
    using err False by (simp add: abs_if split: if_splits)
  ultimately show ?thesis by blast
qed

lemma to_double_grid:
  assumes "to_double x = Fin r"
  shows "on_grid r"
proof (cases "x = 0")
  case True
  then show ?thesis using assms by (simp add: to_double_def on_grid_def)
next
  case False
  define k where "k = max (expo \<bar>x\<bar>) (- 1022) - 52"
  define m where "m = round_half_even (\<bar>x\<bar> / ulp x)"
  have k: "0 \<le> k + 1074" by (simp add: k_def)
  have "(2::real) powi k * grid = 2 powi k * 2 powi 1074"
    by (simp add: grid_def)
  also have "\<dots> = 2 powi (k + 1074)"
    by (simp add: power_int_add)
  also have "\<dots> = 2 ^ nat (k + 1074)"
    using k by (simp only: power_int_nonneg_exp)
  finally have scale: "(2::real) powi k * grid = 2 ^ nat (k + 1074)" .
  have r: "r = of_int m * 2 powi k \<or> r = - (of_int m * 2 powi k)"
    using assms False by (auto simp: to_double_def Let_def ulp_def k_def m_def split: if_splits)
  have "of_int m * 2 powi k * grid = (of_int (m * 2 ^ nat (k + 1074)) :: real)"
    using scale by (simp add: mult.assoc)
  then have "r * grid = of_int (m * 2 ^ nat (k + 1074))
      \<or> r * grid = of_int (- (m * 2 ^ nat (k + 1074)))"
    using r by auto
  then show ?thesis
    unfolding on_grid_def by (metis floor_of_int)
qed

lemma ulp_le_grid:
  assumes "on_grid z" "z \<noteq> 0"
  shows "ulp z \<le> \<bar>z\<bar>"
proof (cases "- 1022 \<le> expo \<bar>z\<bar>")
  case True
  then have "ulp z = 2 powi (expo \<bar>z\<bar> - 52)"
    by (simp add: ulp_def max_def)
  also have "\<dots> \<le> 2 powi expo \<bar>z\<bar>"
    by (intro power_int_increasing) simp_all
  also have "\<dots> \<le> \<bar>z\<bar>"
    using assms(2) by (intro expo_lower) simp
  finally show ?thesis .
next
  case False
  then have u: "ulp z = 1 / grid"
    by (simp add: ulp_def max_def power_int_minus_divide grid_def)
  have int: "of_int \<lfloor>z * grid\<rfloor> = z * grid"
    using assms(1) by (simp add: on_grid_def)
  have "\<bar>z\<bar> * grid = \<bar>z * grid\<bar>"
    using grid_pos by (simp add: abs_mult)
  also have "\<dots> = \<bar>of_int \<lfloor>z * grid\<rfloor>\<bar>"
    by (simp only: int)
  also have "\<dots> = of_int \<bar>\<lfloor>z * grid\<rfloor>\<bar>"
    by simp
  finally have eq: "\<bar>z\<bar> * grid = of_int \<bar>\<lfloor>z * grid\<rfloor>\<bar>" .
  have "z * grid \<noteq> 0"
    using assms(2) grid_pos by simp
  then have "\<lfloor>z * grid\<rfloor> \<noteq> 0"
    using int by auto
  then have "1 \<le> \<bar>\<lfloor>z * grid\<rfloor>\<bar>" by simp
  then have "(1::real) \<le> of_int \<bar>\<lfloor>z * grid\<rfloor>\<bar>"
    by (simp only: of_int_1_le_iff)
  then have "1 \<le> \<bar>z\<bar> * grid"
    using eq by simp
  then show ?thesis
    unfolding u using grid_pos by (simp add: field_simps)
qed

lemma bitlen_numeral_simps:
  "bitlen 1 = 1"
  "bitlen (numeral Num.One) = 1"
  "bitlen (numeral (Num.Bit0 n)) = bitlen (numeral n) + 1"
  "bitlen (numeral (Num.Bit1 n)) = bitlen (numeral n) + 1"
  by (subst compute_bitlen, simp)+


text \<open>Evaluation of the rounding at a numeral.\<close>

lemmas to_double_eval =
  to_double_def ulp_def expo_def round_half_even_def Let_def bitlen_numeral_simps

lemma to_double_half: "to_double (1 / 2) = Fin (1 / 2)"
  by (simp add: to_double_eval)

lemma to_double_tenth: "to_double (1 / 10) = Fin (3602879701896397 / 2 ^ 55)"
  by (simp add: to_double_eval)

lemma js_gt_to_double_pos:
  assumes "on_grid z" "0 < z"
  shows "js_gt (to_double z) (Fin 0)"
proof -
  have nz: "z \<noteq> 0" using assms(2) by simp
  have "ulp z \<le> \<bar>z\<bar>"
    using assms(1) nz by (rule ulp_le_grid)
  then have "1 \<le> \<bar>z\<bar> / ulp z"
    using ulp_pos [of z] by (simp add: field_simps)
  then have "1 \<le> round_half_even (\<bar>z\<bar> / ulp z)"
    by (rule round_half_even_pos)
  then have "(1::real) \<le> of_int (round_half_even (\<bar>z\<bar> / ulp z))"
    by (simp only: of_int_1_le_iff)
  then have "0 < of_int (round_half_even (\<bar>z\<bar> / ulp z)) * ulp z"
    using ulp_pos [of z] by (intro mult_pos_pos) simp_all
  then show ?thesis
    using assms(2) by (simp add: to_double_def Let_def)
qed

lemma js_gt_to_double_nonpos:
  assumes "z \<le> 0"
  shows "\<not> js_gt (to_double z) (Fin 0)"
proof (cases "z = 0")
  case True
  then show ?thesis by (simp add: to_double_def)
next
  case False
  have "0 \<le> \<bar>z\<bar> / ulp z"
    using ulp_pos [of z] by simp
  then have "0 \<le> round_half_even (\<bar>z\<bar> / ulp z)"
    by (rule round_half_even_nonneg)
  then have "(0::real) \<le> of_int (round_half_even (\<bar>z\<bar> / ulp z)) * ulp z"
    using ulp_pos [of z] by (intro mult_nonneg_nonneg) simp_all
  then show ?thesis
    using assms False by (simp add: to_double_def Let_def)
qed

lemma on_grid_diff:
  assumes "on_grid a" "on_grid b"
  shows "on_grid (b - a)"
proof -
  have a: "of_int \<lfloor>a * grid\<rfloor> = a * grid" and b: "of_int \<lfloor>b * grid\<rfloor> = b * grid"
    using assms by (simp_all only: on_grid_def)
  have "(b - a) * grid = b * grid - a * grid"
    by (simp add: algebra_simps)
  also have "\<dots> = of_int (\<lfloor>b * grid\<rfloor> - \<lfloor>a * grid\<rfloor>)"
    by (simp only: of_int_diff a b)
  finally have "(b - a) * grid = of_int (\<lfloor>b * grid\<rfloor> - \<lfloor>a * grid\<rfloor>)" .
  then show ?thesis
    unfolding on_grid_def by (metis floor_of_int)
qed

text \<open>
  The sign of a rounded difference of two doubles is the sign of the exact difference:
  the comparator \<open>pb - pa\<close> orders two finite priorities as \<open><\<close> does.
\<close>

lemma js_gt_sub_iff:
  assumes "on_grid a" "on_grid b"
  shows "js_gt (js_sub (Fin b) (Fin a)) (Fin 0) = (a < b)"
proof (cases "a < b")
  case True
  then have "js_gt (to_double (b - a)) (Fin 0)"
    using on_grid_diff [OF assms] by (intro js_gt_to_double_pos) simp_all
  then show ?thesis
    using True by (simp add: js_sub_def)
next
  case False
  then have "\<not> js_gt (to_double (b - a)) (Fin 0)"
    by (intro js_gt_to_double_nonpos) simp
  then show ?thesis
    using False by (simp add: js_sub_def)
qed

lemma js_add_grid: "js_add x y = Fin r \<Longrightarrow> on_grid r"
  by (cases x; cases y) (auto dest: to_double_grid)

lemma expo_upper:
  assumes "0 < x"
  shows "x < 2 powi (expo x + 1)"
proof (cases "1 \<le> x")
  case True
  then have pos: "0 < \<lfloor>x\<rfloor>" by linarith
  have k: "0 \<le> bitlen \<lfloor>x\<rfloor>"
    by (rule bitlen_nonneg)
  have "\<lfloor>x\<rfloor> < (2::int) ^ nat (bitlen \<lfloor>x\<rfloor>)"
    using bitlen_bounds [OF pos] by blast
  then have "\<lfloor>x\<rfloor> + 1 \<le> (2::int) ^ nat (bitlen \<lfloor>x\<rfloor>)" by simp
  then have "of_int (\<lfloor>x\<rfloor> + 1) \<le> (2::real) ^ nat (bitlen \<lfloor>x\<rfloor>)"
    by (metis of_int_le_iff of_int_numeral of_int_power)
  moreover have "x < of_int (\<lfloor>x\<rfloor> + 1)" by linarith
  ultimately have "x < (2::real) ^ nat (bitlen \<lfloor>x\<rfloor>)" by linarith
  then show ?thesis
    using True k by (simp add: expo_def power_int_nonneg_exp)
next
  case False
  let ?y = "1 / x"
  let ?j = "bitlen \<lfloor>?y\<rfloor> - 1"
  have y: "1 < ?y" using False assms by simp
  then have pos: "0 < \<lfloor>?y\<rfloor>" by linarith
  have j: "0 \<le> ?j"
    using pos bitlen_eq_zero_iff [of "\<lfloor>?y\<rfloor>"] bitlen_nonneg [of "\<lfloor>?y\<rfloor>"] by linarith
  have "(2::int) ^ nat ?j \<le> \<lfloor>?y\<rfloor>"
    using bitlen_bounds [OF pos] by blast
  then have "(2::real) ^ nat ?j \<le> of_int \<lfloor>?y\<rfloor>"
    by (metis of_int_le_iff of_int_numeral of_int_power)
  also have "\<dots> \<le> ?y" by simp
  finally have "(2::real) powi ?j \<le> 1 / x"
    using j by (simp add: power_int_nonneg_exp)
  then have le: "x * 2 powi ?j \<le> 1"
    using assms by (simp add: field_simps)
  have inv: "(2::real) powi (- ?j) = 1 / 2 powi ?j"
    by (rule power_int_minus_divide)
  show ?thesis
  proof (cases "x * 2 powi ?j = 1")
    case True
    moreover have "0 < (2::real) powi ?j" by simp
    ultimately have "x = 1 / 2 powi ?j"
      by (simp add: field_simps)
    then have "x = 2 powi (- ?j)"
      by (simp only: inv)
    moreover have "(2::real) powi (- ?j) < 2 powi (- ?j + 1)"
      by (intro power_int_strict_increasing) simp_all
    ultimately show ?thesis
      using False True by (simp add: expo_def Let_def)
  next
    case neq: False
    then have "x * 2 powi ?j < 1"
      using le by simp
    moreover have "0 < (2::real) powi ?j" by simp
    ultimately have "x < 1 / 2 powi ?j"
      by (simp add: field_simps)
    then have "x < 2 powi (- ?j)"
      by (simp only: inv)
    moreover have "- ?j - 1 + 1 = - ?j" by simp
    ultimately show ?thesis
      using False neq by (simp add: expo_def Let_def)
  qed
qed

text \<open>A real from \<open>2 ^ 1024\<close> on rounds to \<open>Infinity\<close>.\<close>

lemma to_double_overflow:
  assumes "2 ^ 1024 \<le> x"
  shows "to_double x = PInf"
proof -
  have pos: "0 < x"
    using assms by (meson less_le_trans zero_less_numeral zero_less_power)
  have "(2::real) powi 1024 \<le> x"
    using assms by simp
  also have "\<dots> < 2 powi (expo x + 1)"
    using pos by (rule expo_upper)
  finally have lt: "(2::real) powi 1024 < 2 powi (expo x + 1)" .
  have e: "1024 \<le> expo x"
  proof (rule ccontr)
    assume "\<not> 1024 \<le> expo x"
    then have "(2::real) powi (expo x + 1) \<le> 2 powi 1024"
      by (intro power_int_increasing) simp_all
    then show False
      using lt by simp
  qed
  define u where "u = ulp x"
  have u: "u = 2 powi (expo x - 52)" "0 < u"
    using e pos by (simp_all add: u_def ulp_def max_def)
  have "(2::real) powi expo x = 2 powi (52 + (expo x - 52))"
    by simp
  also have "\<dots> = 2 powi 52 * 2 powi (expo x - 52)"
    by (rule power_int_add) simp
  finally have split: "(2::real) powi expo x = 2 powi 52 * 2 powi (expo x - 52)" .
  have "2 powi expo x \<le> x"
    using pos by (rule expo_lower)
  then have "2 ^ 52 * u \<le> x"
    using split u(1) by simp
  then have "2 ^ 52 \<le> x / u"
    using u(2) by (simp add: field_simps)
  then have "(2::int) ^ 52 \<le> \<lfloor>x / u\<rfloor>"
    by (simp add: le_floor_iff)
  then have "(2::int) ^ 52 \<le> round_half_even (x / u)"
    using round_half_even_ge_floor [of "x / u"] by linarith
  then have "(2::real) ^ 52 \<le> of_int (round_half_even (x / u))"
    by (metis of_int_le_iff of_int_numeral of_int_power)
  then have "2 ^ 52 * u \<le> of_int (round_half_even (x / u)) * u"
    using u(2) by (intro mult_right_mono) simp_all
  moreover have "2 ^ 1024 \<le> 2 ^ 52 * u"
  proof -
    have "(2::real) powi 1024 \<le> 2 powi expo x"
      using e by (intro power_int_increasing) simp_all
    then show ?thesis
      using split u(1) by simp
  qed
  ultimately have "2 ^ 1024 \<le> of_int (round_half_even (x / u)) * u"
    by linarith
  then show ?thesis
    using pos by (simp add: to_double_def Let_def u_def)
qed

text \<open>
  A single participant with a stake beyond the range of the doubles: \<open>Number\<close> gives
  \<open>Infinity\<close> for the stake and for the total, and their quotient is NaN.
\<close>

lemma Number_overflow: "2 ^ 1024 \<le> x \<Longrightarrow> Number x = PInf"
  unfolding Number_def by (rule to_double_overflow) (metis of_int_le_iff of_int_numeral of_int_power)

lemma round_half_even_le_double:
  assumes "0 \<le> y"
  shows "of_int (round_half_even y) \<le> 2 * y"
proof (cases "y < 1 / 2")
  case True
  then have "\<lfloor>y\<rfloor> = 0"
    using assms by (simp add: floor_eq_iff)
  then have "round_half_even y = 0"
    using True by (simp add: round_half_even_def Let_def)
  then show ?thesis
    using assms by simp
next
  case False
  have "\<bar>of_int (round_half_even y) - y\<bar> \<le> 1 / 2"
    by (rule round_half_even_error)
  then show ?thesis
    using False by (simp add: abs_if split: if_splits)
qed

text \<open>Below \<open>2 ^ 1023\<close> the rounding is finite and at most doubles the magnitude.\<close>

lemma to_double_finite:
  assumes "\<bar>x\<bar> < 2 ^ 1023"
  shows "\<exists>r. to_double x = Fin r \<and> \<bar>r\<bar> \<le> 2 * \<bar>x\<bar>"
proof (cases "x = 0")
  case True
  then show ?thesis by (simp add: to_double_def)
next
  case False
  define r0 where "r0 = of_int (round_half_even (\<bar>x\<bar> / ulp x)) * ulp x"
  have u: "0 < ulp x" by (rule ulp_pos)
  have "0 \<le> \<bar>x\<bar> / ulp x"
    using u by simp
  then have "of_int (round_half_even (\<bar>x\<bar> / ulp x)) \<le> 2 * (\<bar>x\<bar> / ulp x)"
    by (rule round_half_even_le_double)
  then have "r0 \<le> 2 * (\<bar>x\<bar> / ulp x) * ulp x"
    unfolding r0_def using u by (intro mult_right_mono) simp_all
  then have le: "r0 \<le> 2 * \<bar>x\<bar>"
    using u by simp
  have "0 \<le> round_half_even (\<bar>x\<bar> / ulp x)"
    using \<open>0 \<le> \<bar>x\<bar> / ulp x\<close> by (rule round_half_even_nonneg)
  then have ge: "0 \<le> r0"
    unfolding r0_def using u by simp
  have "r0 < 2 * 2 ^ 1023"
    using le assms by linarith
  then have small: "\<not> 2 ^ 1024 \<le> r0"
    by simp
  have "to_double x = Fin (if 0 < x then r0 else - r0)"
    using False small by (simp add: to_double_def Let_def r0_def)
  moreover have "\<bar>if 0 < x then r0 else - r0\<bar> \<le> 2 * \<bar>x\<bar>"
    using le ge by (auto simp: abs_if split: if_splits)
  ultimately show ?thesis by blast
qed

text \<open>From 1 on the rounding loses at most half of the value.\<close>

lemma to_double_lower:
  assumes "1 \<le> x" "x < 2 ^ 1023"
  shows "\<exists>r. to_double x = Fin r \<and> x / 2 \<le> r"
proof -
  have pos: "0 < x" using assms(1) by simp
  define r0 where "r0 = of_int (round_half_even (\<bar>x\<bar> / ulp x)) * ulp x"
  have u: "0 < ulp x" by (rule ulp_pos)
  have "(2::real) powi 0 \<le> x"
    using assms(1) by simp
  also have "\<dots> < 2 powi (expo x + 1)"
    using pos by (rule expo_upper)
  finally have lt: "(2::real) powi 0 < 2 powi (expo x + 1)" .
  have e: "0 \<le> expo x"
  proof (rule ccontr)
    assume "\<not> 0 \<le> expo x"
    then have "(2::real) powi (expo x + 1) \<le> 2 powi 0"
      by (intro power_int_increasing) simp_all
    then show False
      using lt by simp
  qed
  then have "ulp x = 2 powi (expo x - 52)"
    using pos by (simp add: ulp_def max_def)
  also have "\<dots> \<le> 2 powi expo x"
    by (intro power_int_increasing) simp_all
  also have "\<dots> \<le> x"
    using pos by (rule expo_lower)
  finally have ux: "ulp x \<le> x" .
  have absx: "\<bar>x\<bar> = x"
    using pos by simp
  have "\<bar>of_int (round_half_even (x / ulp x)) - x / ulp x\<bar> \<le> 1 / 2"
    by (rule round_half_even_error)
  then have "x / ulp x - 1 / 2 \<le> of_int (round_half_even (x / ulp x))"
    by linarith
  then have "x / ulp x - 1 / 2 \<le> of_int (round_half_even (\<bar>x\<bar> / ulp x))"
    by (simp only: absx)
  then have "(x / ulp x - 1 / 2) * ulp x \<le> r0"
    unfolding r0_def using u by (intro mult_right_mono) simp_all
  moreover have "(x / ulp x - 1 / 2) * ulp x = x - ulp x / 2"
    using u by (simp add: field_simps)
  ultimately have ge: "x / 2 \<le> r0"
    using ux by simp
  obtain r where r: "to_double x = Fin r" "\<bar>r\<bar> \<le> 2 * \<bar>x\<bar>"
    using to_double_finite [of x] assms(2) pos by auto
  have "r = r0"
    using r(1) pos by (simp add: to_double_def Let_def r0_def split: if_splits)
  then show ?thesis
    using r(1) ge by simp
qed

section \<open>Bounded epoch updates\<close>

lemma clamp_fin:
  "Math_max (Fin 0) (Math_min (Fin 1) (Fin x)) = Fin (max 0 (min 1 x))"
  by (simp add: Math_max_def Math_min_def max_def min_def)

lemma clamp_near:
  fixes w d e :: real
  assumes "0 \<le> w" "w \<le> 1" "\<bar>d\<bar> \<le> e"
  shows "\<bar>max 0 (min 1 (w + d)) - w\<bar> \<le> e"
  using assms by (simp add: max_def min_def abs_if split: if_splits)

text \<open>
  The sum before clamping, for a value and a score of \<open>[0,1]\<close>: each of the three
  operations rounds, and the result is within \<open>0.05 + 2 ^ -51\<close> of the old value.
\<close>

lemma step_bound:
  assumes "0 \<le> w" "w \<le> 1" "0 \<le> p" "p \<le> 1"
  shows "\<exists>s. js_add (Fin w) (js_mul (js_sub (Fin p) (to_double 0.5)) (to_double 0.1)) = Fin s
           \<and> \<bar>s - w\<bar> \<le> 0.05 + 1 / 2 ^ 51"
proof -
  define c :: real where "c = 3602879701896397 / 2 ^ 55"
  have c: "0 < c" "c \<le> 0.1 + 1 / 2 ^ 53"
    by (simp_all add: c_def)
  have tenth: "to_double (1 / 10) = Fin c"
    by (simp add: c_def to_double_tenth)
  have sub: "js_sub (Fin p) (to_double (1 / 2)) = to_double (p - 1 / 2)"
    by (simp add: js_sub_def to_double_half)
  have "\<bar>p - 1 / 2\<bar> < 2"
    using assms(3,4) by (simp add: abs_if)
  then obtain t where t: "to_double (p - 1 / 2) = Fin t" "\<bar>t - (p - 1 / 2)\<bar> \<le> 1 / 2 ^ 53"
    using to_double_error [of "p - 1 / 2"] by blast
  have t_le: "\<bar>t\<bar> \<le> 0.5 + 1 / 2 ^ 53"
    using t(2) assms(3,4) by (simp add: abs_if split: if_splits)
  have "\<bar>t * c\<bar> = \<bar>t\<bar> * c"
    using c(1) by (simp add: abs_mult)
  also have "\<dots> \<le> (0.5 + 1 / 2 ^ 53) * c"
    using t_le c(1) by (intro mult_right_mono) simp_all
  also have "\<dots> \<le> 0.05 + 1 / 2 ^ 53"
    by (simp add: c_def)
  finally have tc: "\<bar>t * c\<bar> \<le> 0.05 + 1 / 2 ^ 53" .
  then have "\<bar>t * c\<bar> < 2" by simp
  then obtain d where d: "to_double (t * c) = Fin d" "\<bar>d - t * c\<bar> \<le> 1 / 2 ^ 53"
    using to_double_error [of "t * c"] by blast
  have d_le: "\<bar>d\<bar> \<le> 0.05 + 2 / 2 ^ 53"
    using d(2) tc by (simp add: abs_if split: if_splits)
  then have "\<bar>w + d\<bar> < 2"
    using assms(1,2) by (simp add: abs_if split: if_splits)
  then obtain s where s: "to_double (w + d) = Fin s" "\<bar>s - (w + d)\<bar> \<le> 1 / 2 ^ 53"
    using to_double_error [of "w + d"] by blast
  have "js_add (Fin w) (js_mul (js_sub (Fin p) (to_double 0.5)) (to_double 0.1)) = Fin s"
    by (simp add: sub t(1) tenth d(1) s(1))
  moreover have "\<bar>s - w\<bar> \<le> 0.05 + 1 / 2 ^ 51"
    using s(2) d_le by (simp add: abs_if split: if_splits)
  ultimately show ?thesis by blast
qed

lemma calculateNewWeight_bound:
  assumes "weight node = Fin w" "0 \<le> w" "w \<le> 1" "0 \<le> p" "p \<le> 1"
  shows "\<exists>w'. calculateNewWeight node (Fin p) = Fin w' \<and> \<bar>w' - w\<bar> \<le> 0.05 + 1 / 2 ^ 51"
proof -
  obtain s where s:
    "js_add (Fin w) (js_mul (js_sub (Fin p) (to_double 0.5)) (to_double 0.1)) = Fin s"
    "\<bar>s - w\<bar> \<le> 0.05 + 1 / 2 ^ 51"
    using step_bound [OF assms(2-5)] by blast
  have "calculateNewWeight node (Fin p) = Fin (max 0 (min 1 (w + (s - w))))"
    unfolding calculateNewWeight_def Let_def assms(1) s(1) clamp_fin by simp
  moreover have "\<bar>max 0 (min 1 (w + (s - w))) - w\<bar> \<le> 0.05 + 1 / 2 ^ 51"
    using assms(2,3) s(2) by (rule clamp_near)
  ultimately show ?thesis by blast
qed

lemma updateReputation_bound:
  assumes "reputation node = Fin r" "0 \<le> r" "r \<le> 1" "0 \<le> a" "a \<le> 1"
  shows "\<exists>r'. updateReputation node (Fin a) = Fin r' \<and> \<bar>r' - r\<bar> \<le> 0.05 + 1 / 2 ^ 51"
proof -
  obtain s where s:
    "js_add (Fin r) (js_mul (js_sub (Fin a) (to_double 0.5)) (to_double 0.1)) = Fin s"
    "\<bar>s - r\<bar> \<le> 0.05 + 1 / 2 ^ 51"
    using step_bound [OF assms(2-5)] by blast
  have "updateReputation node (Fin a) = Fin (max 0 (min 1 (r + (s - r))))"
    unfolding updateReputation_def Let_def assms(1) s(1) clamp_fin by simp
  moreover have "\<bar>max 0 (min 1 (r + (s - r))) - r\<bar> \<le> 0.05 + 1 / 2 ^ 51"
    using assms(2,3) s(2) by (rule clamp_near)
  ultimately show ?thesis by blast
qed

lemma clamp_unit_notnan:
  "x \<noteq> NaN \<Longrightarrow> in_unit (Math_max (Fin 0) (Math_min (Fin 1) x))"
  by (cases x) (simp_all add: Math_max_def Math_min_def in_unit_def)

lemma js_add_Fin_notnan: "y \<noteq> NaN \<Longrightarrow> js_add (Fin w) y \<noteq> NaN"
  by (cases y) (simp_all add: to_double_not_NaN)

lemma step_notnan:
  assumes "x \<noteq> NaN"
  shows "js_add (Fin w) (js_mul (js_sub x (to_double 0.5)) (to_double 0.1)) \<noteq> NaN"
proof -
  have "js_sub x (to_double 0.5) \<noteq> NaN"
    using assms by (cases x) (simp_all add: js_sub_def to_double_half to_double_not_NaN)
  then have "js_mul (js_sub x (to_double 0.5)) (to_double 0.1) \<noteq> NaN"
    by (cases "js_sub x (to_double 0.5)") (simp_all add: to_double_tenth to_double_not_NaN)
  then show ?thesis
    by (rule js_add_Fin_notnan)
qed

lemma in_unit_Fin: "in_unit x \<Longrightarrow> \<exists>r. x = Fin r"
  by (cases x) (simp_all add: in_unit_def)

text \<open>The weight 0.1 with the performance 1 becomes 0.15000000000000002.\<close>

lemma new_weight_rounds:
  "calculateNewWeight (sample_node ''n'' 10 (Fin 1) (Fin 0)\<lparr>weight := to_double 0.1\<rparr>) (Fin 1)
     = Fin (1351079888211149 / 2 ^ 53)"
  by (simp add: sample_node_def calculateNewWeight_def js_sub_def Math_max_def Math_min_def
      to_double_eval)

text \<open>
  Claim C5 (bounded drift). For a participant whose weight \<open>w\<close> and reputation \<open>r\<close> lie
  in \<open>[0,1]\<close> (the invariant of the data model), a performance score \<open>p\<close> in \<open>[0,1]\<close> and
  an alignment score \<open>a\<close> in \<open>[0,1]\<close>, the epoch update gives a finite weight \<open>w'\<close> and a
  finite reputation \<open>r'\<close> with \<open>|w' - w| \<le> 0.1\<close> and \<open>|r' - r| \<le> 0.1\<close>.
\<close>

theorem bounded_drift:
  assumes "weight node = Fin w" "0 \<le> w" "w \<le> 1"
    and "reputation node = Fin r" "0 \<le> r" "r \<le> 1"
    and "0 \<le> p" "p \<le> 1" "0 \<le> a" "a \<le> 1"
  shows "\<exists>w' r'. calculateNewWeight node (Fin p) = Fin w' \<and> \<bar>w' - w\<bar> \<le> 0.1
            \<and> updateReputation node (Fin a) = Fin r' \<and> \<bar>r' - r\<bar> \<le> 0.1"
proof -
  obtain w' where w': "calculateNewWeight node (Fin p) = Fin w'"
    "\<bar>w' - w\<bar> \<le> 0.05 + 1 / 2 ^ 51"
    using calculateNewWeight_bound [OF assms(1-3) assms(7,8)] by blast
  obtain r' where r': "updateReputation node (Fin a) = Fin r'"
    "\<bar>r' - r\<bar> \<le> 0.05 + 1 / 2 ^ 51"
    using updateReputation_bound [OF assms(4-6) assms(9,10)] by blast
  have "\<bar>w' - w\<bar> \<le> 0.1" "\<bar>r' - r\<bar> \<le> 0.1"
    using w'(2) r'(2) by simp_all
  then show ?thesis
    using w'(1) r'(1) by blast
qed

text \<open>
  The bound at a participant of weight 0.5 and reputation 0.96875, with the performance
  0 and the alignment 1 (the reputation is clamped at 1).
\<close>

theorem bounded_drift_witness:
  "weight (sample_node ''n'' 10 (Fin 0.96875) (Fin 0)) = Fin 0.5
   \<and> reputation (sample_node ''n'' 10 (Fin 0.96875) (Fin 0)) = Fin 0.96875
   \<and> (\<exists>w' r'. calculateNewWeight (sample_node ''n'' 10 (Fin 0.96875) (Fin 0)) (Fin 0) = Fin w'
         \<and> \<bar>w' - 0.5\<bar> \<le> 0.1
         \<and> updateReputation (sample_node ''n'' 10 (Fin 0.96875) (Fin 0)) (Fin 1) = Fin r'
         \<and> \<bar>r' - 0.96875\<bar> \<le> 0.1)"
  using bounded_drift [of "sample_node ''n'' 10 (Fin 0.96875) (Fin 0)" "0.5" "0.96875" 0 1]
  by (simp add: sample_node_def)

text \<open>
  Claim C10 as stated fails in the arithmetic of the code, where every operation rounds.
  With the weight 0.5 and the performance 1 the adjustment is the double nearest to
  0.05, which is above 0.05, and the new weight is the double 0.55, that is
  \<open>2476979795053773 / 2 ^ 52\<close>: it exceeds the old weight by more than 0.05.
\<close>

theorem half_drift_counterexample:
  "weight (sample_node ''n'' 10 (Fin 0.25) (Fin 0)) = Fin 0.5
   \<and> calculateNewWeight (sample_node ''n'' 10 (Fin 0.25) (Fin 0)) (Fin 1)
        = Fin (2476979795053773 / 2 ^ 52)
   \<and> (0.05::real) < 2476979795053773 / 2 ^ 52 - 0.5"
  by (simp add: sample_node_def calculateNewWeight_def js_sub_def Math_max_def Math_min_def
      to_double_eval)

text \<open>
  Claim C10, amended (the tighter bound, up to rounding). For a participant whose weight
  and reputation lie in \<open>[0,1]\<close> and scores in \<open>[0,1]\<close>, the single-epoch change of the
  weight and of the reputation is at most \<open>0.05 + 2 ^ -51\<close> in absolute value: the
  adjustment \<open>(score - 0.5) * 0.1\<close> is 0.05 in magnitude at most, up to the rounding of
  the subtraction, the product and the sum, and clamping into \<open>[0,1]\<close> only brings the
  result closer to the old value.
\<close>

theorem drift_up_to_rounding:
  assumes "weight node = Fin w" "0 \<le> w" "w \<le> 1"
    and "reputation node = Fin r" "0 \<le> r" "r \<le> 1"
    and "0 \<le> p" "p \<le> 1" "0 \<le> a" "a \<le> 1"
  shows "\<exists>w' r'. calculateNewWeight node (Fin p) = Fin w' \<and> \<bar>w' - w\<bar> \<le> 0.05 + 1 / 2 ^ 51
            \<and> updateReputation node (Fin a) = Fin r' \<and> \<bar>r' - r\<bar> \<le> 0.05 + 1 / 2 ^ 51"
  using calculateNewWeight_bound [OF assms(1-3) assms(7,8)]
    updateReputation_bound [OF assms(4-6) assms(9,10)]
  by blast

text \<open>
  Weight 0.5 with the performance 1 becomes the double 0.55, and reputation 0.25 with the
  alignment 0 becomes the double 0.2.
\<close>

theorem drift_up_to_rounding_witness:
  "weight (sample_node ''n'' 10 (Fin 0.25) (Fin 0)) = Fin 0.5
   \<and> reputation (sample_node ''n'' 10 (Fin 0.25) (Fin 0)) = Fin 0.25
   \<and> calculateNewWeight (sample_node ''n'' 10 (Fin 0.25) (Fin 0)) (Fin 1)
        = Fin (2476979795053773 / 2 ^ 52)
   \<and> updateReputation (sample_node ''n'' 10 (Fin 0.25) (Fin 0)) (Fin 0)
        = Fin (3602879701896397 / 2 ^ 54)
   \<and> (\<exists>w' r'. calculateNewWeight (sample_node ''n'' 10 (Fin 0.25) (Fin 0)) (Fin 1) = Fin w'
         \<and> \<bar>w' - 0.5\<bar> \<le> 0.05 + 1 / 2 ^ 51
         \<and> updateReputation (sample_node ''n'' 10 (Fin 0.25) (Fin 0)) (Fin 0) = Fin r'
         \<and> \<bar>r' - 0.25\<bar> \<le> 0.05 + 1 / 2 ^ 51)"
proof -
  have w: "calculateNewWeight (sample_node ''n'' 10 (Fin 0.25) (Fin 0)) (Fin 1)
        = Fin (2476979795053773 / 2 ^ 52)"
    by (simp add: sample_node_def calculateNewWeight_def js_sub_def Math_max_def Math_min_def
        to_double_eval)
  have r: "updateReputation (sample_node ''n'' 10 (Fin 0.25) (Fin 0)) (Fin 0)
        = Fin (3602879701896397 / 2 ^ 54)"
    by (simp add: sample_node_def updateReputation_def js_sub_def Math_max_def Math_min_def
        to_double_eval)
  show ?thesis
    using drift_up_to_rounding [of "sample_node ''n'' 10 (Fin 0.25) (Fin 0)" "0.5" "0.25" 1 0]
      w r
    by (simp add: sample_node_def)
qed

text \<open>
  Claim C6 as stated fails for the score NaN: \<open>Math.min(1, NaN)\<close> and \<open>Math.max(0, NaN)\<close>
  are NaN, so a participant of weight 0.5 and reputation 1 leaves the epoch with the
  weight NaN and the reputation NaN.
\<close>

theorem clamping_counterexample:
  "in_unit (weight (sample_node ''n'' 10 (Fin 1) (Fin 0)))
   \<and> in_unit (reputation (sample_node ''n'' 10 (Fin 1) (Fin 0)))
   \<and> calculateNewWeight (sample_node ''n'' 10 (Fin 1) (Fin 0)) NaN = NaN
   \<and> updateReputation (sample_node ''n'' 10 (Fin 1) (Fin 0)) NaN = NaN
   \<and> \<not> in_unit (calculateNewWeight (sample_node ''n'' 10 (Fin 1) (Fin 0)) NaN)
   \<and> \<not> in_unit (updateReputation (sample_node ''n'' 10 (Fin 1) (Fin 0)) NaN)"
  by (simp add: sample_node_def calculateNewWeight_def updateReputation_def js_sub_def
      Math_max_def Math_min_def in_unit_def)

text \<open>
  Claim C6, amended (clamping). For a participant whose weight and reputation lie in
  \<open>[0,1]\<close> and for every performance and alignment score other than NaN (any finite
  value, however far out of range, and both infinities), the updated weight and the
  updated reputation lie in \<open>[0,1]\<close>.
\<close>

theorem clamping:
  assumes "in_unit (weight node)" "in_unit (reputation node)"
    and "performance \<noteq> NaN" "alignment \<noteq> NaN"
  shows "in_unit (calculateNewWeight node performance)
       \<and> in_unit (updateReputation node alignment)"
proof -
  obtain w where w: "weight node = Fin w"
    using in_unit_Fin [OF assms(1)] by blast
  obtain r where r: "reputation node = Fin r"
    using in_unit_Fin [OF assms(2)] by blast
  show ?thesis
    unfolding calculateNewWeight_def updateReputation_def Let_def w r
    using assms(3,4) by (intro conjI clamp_unit_notnan step_notnan)
qed

text \<open>
  The invariant at the performance 1000000 (the weight is clamped at 1) and the
  alignment \<open>-Infinity\<close> (the reputation is clamped at 0).
\<close>

theorem clamping_witness:
  "in_unit (weight (sample_node ''n'' 10 (Fin 1) (Fin 0)))
   \<and> in_unit (reputation (sample_node ''n'' 10 (Fin 1) (Fin 0)))
   \<and> Fin 1000000 \<noteq> NaN \<and> NInf \<noteq> NaN
   \<and> calculateNewWeight (sample_node ''n'' 10 (Fin 1) (Fin 0)) (Fin 1000000) = Fin 1
   \<and> updateReputation (sample_node ''n'' 10 (Fin 1) (Fin 0)) NInf = Fin 0
   \<and> in_unit (calculateNewWeight (sample_node ''n'' 10 (Fin 1) (Fin 0)) (Fin 1000000))
   \<and> in_unit (updateReputation (sample_node ''n'' 10 (Fin 1) (Fin 0)) NInf)"
proof -
  have w: "calculateNewWeight (sample_node ''n'' 10 (Fin 1) (Fin 0)) (Fin 1000000) = Fin 1"
    by (simp add: sample_node_def calculateNewWeight_def js_sub_def Math_max_def Math_min_def
        to_double_eval)
  have r: "updateReputation (sample_node ''n'' 10 (Fin 1) (Fin 0)) NInf = Fin 0"
    by (simp add: sample_node_def updateReputation_def js_sub_def Math_max_def Math_min_def
        to_double_eval)
  show ?thesis
    using clamping [of "sample_node ''n'' 10 (Fin 1) (Fin 0)" "Fin 1000000" NInf] w r
    by (simp add: sample_node_def in_unit_def)
qed

section \<open>The order of the proposers\<close>

lemma foldl_stake_sum:
  "foldl (\<lambda>total node. total + stake node) a ns = a + sum_list (map stake ns)"
  by (induction ns arbitrary: a) simp_all

lemma getTotalStake_sum: "getTotalStake reg = sum_list (map stake (values_of reg))"
  by (simp add: getTotalStake_def foldl_stake_sum)

lemma getTotalStake_mset:
  assumes "mset reg' = mset reg"
  shows "getTotalStake reg' = getTotalStake reg"
proof -
  have "sum_list (map (stake \<circ> snd) reg') = sum_mset (image_mset (stake \<circ> snd) (mset reg'))"
    by (metis mset_map sum_mset_sum_list)
  also have "\<dots> = sum_mset (image_mset (stake \<circ> snd) (mset reg))"
    using assms by simp
  also have "\<dots> = sum_list (map (stake \<circ> snd) reg)"
    by (metis mset_map sum_mset_sum_list)
  finally show ?thesis
    by (simp add: getTotalStake_sum values_of_def)
qed

lemma calculatePriority_total:
  "getTotalStake reg' = getTotalStake reg \<Longrightarrow> calculatePriority reg' = calculatePriority reg"
  by (rule ext) (simp add: calculatePriority_def)

lemma is_fin_val: "is_fin x \<Longrightarrow> x = Fin (fin_val x)"
  by (cases x) (simp_all add: is_fin_def)

lemma calculatePriority_grid:
  assumes "is_fin (calculatePriority reg n)"
  shows "on_grid (fin_val (calculatePriority reg n))"
proof -
  have "calculatePriority reg n = Fin (fin_val (calculatePriority reg n))"
    using assms by (rule is_fin_val)
  then show ?thesis
    unfolding calculatePriority_def Let_def by (rule js_add_grid)
qed

lemma js_insert_insort:
  assumes "\<forall>y\<in>set (x # ys). P y = Fin (key y) \<and> on_grid (key y)"
  shows "js_insert (\<lambda>a b. js_sub (P b) (P a)) x ys = insort_key (\<lambda>n. - key n) x ys"
  using assms by (induction ys) (auto simp: js_gt_sub_iff)

lemma js_sort_sort_key:
  assumes "\<forall>y\<in>set xs. P y = Fin (key y) \<and> on_grid (key y)"
  shows "js_sort (\<lambda>a b. js_sub (P b) (P a)) xs = sort_key (\<lambda>n. - key n) xs"
  using assms
proof (induction xs)
  case Nil
  then show ?case by (simp add: js_sort_def)
next
  case (Cons x xs)
  have "js_sort (\<lambda>a b. js_sub (P b) (P a)) (x # xs)
      = js_insert (\<lambda>a b. js_sub (P b) (P a)) x (sort_key (\<lambda>n. - key n) xs)"
    using Cons by (simp add: js_sort_def)
  also have "\<dots> = insort_key (\<lambda>n. - key n) x (sort_key (\<lambda>n. - key n) xs)"
    using Cons.prems by (intro js_insert_insort) simp
  finally show ?case by simp
qed

lemma sortedNodes_sort_key:
  assumes "\<forall>n\<in>set (values_of reg). is_fin (calculatePriority reg n)"
  shows "sortedNodes reg
       = sort_key (\<lambda>n. - fin_val (calculatePriority reg n)) (values_of reg)"
  unfolding sortedNodes_def
  using assms by (intro js_sort_sort_key) (auto intro: is_fin_val calculatePriority_grid)

lemma selectedNode_index:
  assumes "reg \<noteq> []" "length (sortedNodes reg) = length reg"
  shows "selectedNode s reg = Some (sortedNodes reg ! (s mod length reg))"
  using assms by (simp add: selectedNode_def slot_index_def array_get_def)

lemma sortedNodes_reorder:
  assumes fin: "\<forall>n\<in>set (values_of reg). is_fin (calculatePriority reg n)"
    and perm: "mset reg' = mset reg"
    and inj: "inj_on (\<lambda>n. fin_val (calculatePriority reg n)) (set (values_of reg))"
  shows "sortedNodes reg' = sortedNodes reg"
proof -
  let ?f = "\<lambda>n. - fin_val (calculatePriority reg n)"
  have same: "calculatePriority reg' = calculatePriority reg"
    using perm by (intro calculatePriority_total getTotalStake_mset)
  have vals: "mset (values_of reg') = mset (values_of reg)"
    using perm by (simp add: values_of_def)
  then have sets: "set (values_of reg') = set (values_of reg)"
    by (rule mset_eq_setD)
  have "sortedNodes reg' = sort_key ?f (values_of reg')"
    using sortedNodes_sort_key [of reg'] fin same sets by simp
  also have "\<dots> = sort_key ?f (values_of reg)"
  proof (rule sort_key_inj_key_eq)
    show "mset (values_of reg') = mset (sort_key ?f (values_of reg))"
      using vals by simp
    show "inj_on ?f (set (values_of reg'))"
      using inj sets by (auto simp: inj_on_def)
    show "sorted (map ?f (sort_key ?f (values_of reg)))"
      by (rule sorted_sort_key)
  qed
  also have "\<dots> = sortedNodes reg"
    using sortedNodes_sort_key [OF fin] by simp
  finally show ?thesis .
qed

text \<open>
  The priorities are finite numbers when the stakes are not negative, the total stake is
  positive and below \<open>2 ^ 1000\<close>, and the reputation lies in \<open>[0,1]\<close>.
\<close>

lemma calculatePriority_finite:
  assumes "0 \<le> stake n" "stake n \<le> getTotalStake reg"
    and "0 < getTotalStake reg" "getTotalStake reg < 2 ^ 1000"
    and "in_unit (reputation n)"
  shows "is_fin (calculatePriority reg n)"
proof -
  define T :: real where "T = of_int (getTotalStake reg)"
  define S :: real where "S = of_int (stake n)"
  have T1: "1 \<le> T"
    using assms(3) by (simp add: T_def)
  have T2: "T < 2 ^ 1000"
    using assms(4) unfolding T_def by (metis of_int_less_iff of_int_numeral of_int_power)
  have S: "0 \<le> S" "S \<le> T"
    using assms(1,2) by (simp_all add: S_def T_def)
  have big: "(2::real) ^ 1000 \<le> 2 ^ 1023"
    by simp
  have "T < 2 ^ 1023"
    using T2 big by linarith
  then obtain b where b: "to_double T = Fin b" "T / 2 \<le> b"
    using to_double_lower [OF T1] by blast
  have "\<bar>S\<bar> < 2 ^ 1023"
    using S T2 big by linarith
  then obtain a where a: "to_double S = Fin a" "\<bar>a\<bar> \<le> 2 * \<bar>S\<bar>"
    using to_double_finite [of S] by blast
  have bpos: "0 < b" using b(2) T1 by simp
  have "\<bar>a\<bar> \<le> 2 * T"
    using a(2) S by linarith
  also have "\<dots> \<le> 4 * b"
    using b(2) by simp
  finally have "\<bar>a\<bar> / b \<le> 4"
    using bpos by (simp add: field_simps)
  then have ab: "\<bar>a / b\<bar> \<le> 4"
    using bpos by simp
  have "\<bar>a / b\<bar> < 2 ^ 1023"
    using ab by (rule le_less_trans) simp
  then obtain q where q: "to_double (a / b) = Fin q" "\<bar>q\<bar> \<le> 2 * \<bar>a / b\<bar>"
    using to_double_finite [of "a / b"] by blast
  have div: "js_div (Number (stake n)) (Number (getTotalStake reg)) = Fin q"
    using a(1) b(1) bpos q(1) by (simp add: Number_def flip: S_def T_def)
  define c6 :: real where "c6 = 5404319552844595 / 2 ^ 53"
  define c4 :: real where "c4 = 3602879701896397 / 2 ^ 53"
  have c6: "to_double (3 / 5) = Fin c6" and c4: "to_double (2 / 5) = Fin c4"
    by (simp_all add: c6_def c4_def to_double_eval)
  have "\<bar>q * c6\<bar> = \<bar>q\<bar> * c6"
    by (simp add: abs_mult c6_def)
  also have "\<dots> \<le> 8 * c6"
    using q(2) ab by (intro mult_right_mono) (simp_all add: c6_def)
  also have "\<dots> \<le> 8"
    by (simp add: c6_def)
  finally have qc: "\<bar>q * c6\<bar> \<le> 8" .
  have "\<bar>q * c6\<bar> < 2 ^ 1023"
    using qc by (rule le_less_trans) simp
  then obtain m1 where m1: "to_double (q * c6) = Fin m1" "\<bar>m1\<bar> \<le> 2 * \<bar>q * c6\<bar>"
    using to_double_finite [of "q * c6"] by blast
  obtain r where r: "reputation n = Fin r" "0 \<le> r" "r \<le> 1"
    using assms(5) by (cases "reputation n") (simp_all add: in_unit_def)
  have "\<bar>r * c4\<bar> = r * c4"
    using r(2) by (simp add: abs_mult c4_def)
  also have "\<dots> \<le> 1 * c4"
    using r(3) by (intro mult_right_mono) (simp_all add: c4_def)
  also have "\<dots> \<le> 1"
    by (simp add: c4_def)
  finally have rc: "\<bar>r * c4\<bar> \<le> 1" .
  have "\<bar>r * c4\<bar> < 2 ^ 1023"
    using rc by (rule le_less_trans) simp
  then obtain m2 where m2: "to_double (r * c4) = Fin m2" "\<bar>m2\<bar> \<le> 2 * \<bar>r * c4\<bar>"
    using to_double_finite [of "r * c4"] by blast
  have "\<bar>m1 + m2\<bar> \<le> 18"
    using m1(2) m2(2) qc rc by linarith
  then have "\<bar>m1 + m2\<bar> < 2 ^ 1023"
    by (rule le_less_trans) simp
  then obtain v where v: "to_double (m1 + m2) = Fin v"
    using to_double_finite [of "m1 + m2"] by blast
  have "calculatePriority reg n = Fin v"
    by (simp add: calculatePriority_def div c6 c4 m1(1) r(1) m2(1) v)
  then show ?thesis
    by (simp add: is_fin_def)
qed

text \<open>
  Rounding decides the order. Over the reals both participants of \<open>reg_round\<close> have
  the priority 0.4; in doubles the first gets 0.39999999999999997 and the second 0.4, so
  the second is selected for slot 0. And \<open>Number\<close> rounds a stake beyond \<open>2 ^ 53\<close>.
\<close>

lemma rounding_decides_order:
  "calculatePriority reg_round (sample_node ''a'' 2 (Fin 0) (Fin 0))
     = Fin (7205759403792793 / 2 ^ 54)
   \<and> calculatePriority reg_round (sample_node ''b'' 1 (Fin 0.5) (Fin 0))
     = Fin (3602879701896397 / 2 ^ 53)
   \<and> selectedNode 0 reg_round = Some (sample_node ''b'' 1 (Fin 0.5) (Fin 0))"
  by (simp add: reg_round_def sample_node_def getTotalStake_def values_of_def
      calculatePriority_def Number_def sortedNodes_def js_sort_def js_sub_def
      selectedNode_def slot_index_def array_get_def to_double_eval)

lemma Number_rounds: "Number (2 ^ 53 + 1) = Fin (2 ^ 53)"
  by (simp add: Number_def to_double_eval)

text \<open>
  Claim C1 as stated fails when two participants have the same priority: the sort keeps
  them in insertion order. The registries \<open>reg_tie_ba\<close> and \<open>reg_tie_ab\<close> hold the same
  two participants \<open>a\<close> and \<open>b\<close>, both of the priority 0.7 (as a double); slot 0
  selects \<open>b\<close> in the first (not the participant of the smaller id) and \<open>a\<close> in the
  second, so the selection depends on the insertion order.
\<close>

theorem proposer_tie_counterexample:
  "mset reg_tie_ab = mset reg_tie_ba
   \<and> calculatePriority reg_tie_ba (sample_node ''a'' 50 (Fin 1) (Fin 0))
       = Fin (3152519739159347 / 2 ^ 52)
   \<and> calculatePriority reg_tie_ba (sample_node ''b'' 50 (Fin 1) (Fin 0))
       = Fin (3152519739159347 / 2 ^ 52)
   \<and> selectedNode 0 reg_tie_ba = Some (sample_node ''b'' 50 (Fin 1) (Fin 0))
   \<and> selectedNode 0 reg_tie_ab = Some (sample_node ''a'' 50 (Fin 1) (Fin 0))
   \<and> selectedNode 0 reg_tie_ba \<noteq> selectedNode 0 reg_tie_ab"
  by (simp add: reg_tie_ab_def reg_tie_ba_def sample_node_def getTotalStake_def values_of_def
      calculatePriority_def Number_def sortedNodes_def js_sort_def js_sub_def
      selectedNode_def slot_index_def array_get_def to_double_eval)

text \<open>
  Claim C1, amended (proposer selection). The priority of a participant is the double
  that \<open>calculatePriority\<close> computes,
  \<open>(Number(stake) / Number(totalStake)) * 0.6 + reputation * 0.4\<close> with every operation
  rounded. For a non-empty registry whose priorities are all finite numbers,
  \<open>sortedNodes\<close> holds the same participants as the map, in descending order of
  priority, and participants of equal priority keep the insertion order of the map among
  themselves (there is no tie-break by id); the node selected for slot \<open>s\<close> is the one
  at index \<open>s mod N\<close> of that list. The selection is a function of the registry, so
  repeating it on an unchanged registry gives the same participant; and when the
  priorities are pairwise distinct, every registry with the same entries in another
  insertion order selects the same participant.
\<close>

theorem proposer_by_stable_priority_order:
  assumes "reg \<noteq> []"
    and "\<forall>n\<in>set (values_of reg). is_fin (calculatePriority reg n)"
  shows "mset (sortedNodes reg) = mset (values_of reg)
       \<and> sorted_wrt (\<lambda>a b. fin_val (calculatePriority reg a)
                             \<ge> fin_val (calculatePriority reg b)) (sortedNodes reg)
       \<and> (\<forall>v. filter (\<lambda>n. fin_val (calculatePriority reg n) = v) (sortedNodes reg)
              = filter (\<lambda>n. fin_val (calculatePriority reg n) = v) (values_of reg))
       \<and> selectedNode s reg = Some (sortedNodes reg ! (s mod length reg))
       \<and> (\<forall>reg'. mset reg' = mset reg
              \<and> inj_on (\<lambda>n. fin_val (calculatePriority reg n)) (set (values_of reg))
            \<longrightarrow> selectedNode s reg' = selectedNode s reg)"
proof -
  let ?f = "\<lambda>n. - fin_val (calculatePriority reg n)"
  have eq: "sortedNodes reg = sort_key ?f (values_of reg)"
    using assms(2) by (rule sortedNodes_sort_key)
  have perm: "mset (sortedNodes reg) = mset (values_of reg)"
    by (simp add: eq)
  have "sorted (map ?f (sortedNodes reg))"
    unfolding eq by (rule sorted_sort_key)
  then have ord: "sorted_wrt (\<lambda>a b. fin_val (calculatePriority reg a)
      \<ge> fin_val (calculatePriority reg b)) (sortedNodes reg)"
    by (simp add: sorted_map)
  have stable: "filter (\<lambda>n. fin_val (calculatePriority reg n) = v) (sortedNodes reg)
      = filter (\<lambda>n. fin_val (calculatePriority reg n) = v) (values_of reg)" for v
    using sort_key_stable [of ?f "- v" "values_of reg"] by (simp add: eq)
  have len: "length (sortedNodes reg) = length reg"
    by (simp add: eq values_of_def)
  have sel: "selectedNode s reg = Some (sortedNodes reg ! (s mod length reg))"
    using assms(1) len by (rule selectedNode_index)
  have indep: "selectedNode s reg' = selectedNode s reg"
    if "mset reg' = mset reg"
      and "inj_on (\<lambda>n. fin_val (calculatePriority reg n)) (set (values_of reg))" for reg'
  proof -
    have "sortedNodes reg' = sortedNodes reg"
      using assms(2) that by (rule sortedNodes_reorder)
    moreover have "length reg' = length reg"
      using that(1) by (rule mset_eq_length)
    ultimately show ?thesis
      by (simp add: selectedNode_def)
  qed
  show ?thesis
    using perm ord stable sel indep by blast
qed

text \<open>
  Three participants with the stakes 100, 200 and 300 and the reputation 1: the order is
  P3, P2, P1, slot 0 selects P3 and slot 4 selects P2.
\<close>

theorem proposer_by_stable_priority_order_witness:
  "reg_stakes \<noteq> []
   \<and> calculatePriority reg_stakes (sample_node ''P1'' 100 (Fin 1) (Fin 0)) = Fin (1 / 2)
   \<and> calculatePriority reg_stakes (sample_node ''P2'' 200 (Fin 1) (Fin 0))
       = Fin (5404319552844595 / 2 ^ 53)
   \<and> calculatePriority reg_stakes (sample_node ''P3'' 300 (Fin 1) (Fin 0))
       = Fin (3152519739159347 / 2 ^ 52)
   \<and> sortedNodes reg_stakes =
        [sample_node ''P3'' 300 (Fin 1) (Fin 0), sample_node ''P2'' 200 (Fin 1) (Fin 0),
         sample_node ''P1'' 100 (Fin 1) (Fin 0)]
   \<and> selectedNode 0 reg_stakes = Some (sample_node ''P3'' 300 (Fin 1) (Fin 0))
   \<and> selectedNode 4 reg_stakes = Some (sample_node ''P2'' 200 (Fin 1) (Fin 0))
   \<and> selectedNode 4 reg_stakes = Some (sortedNodes reg_stakes ! (4 mod length reg_stakes))"
proof -
  have p1: "calculatePriority reg_stakes (sample_node ''P1'' 100 (Fin 1) (Fin 0)) = Fin (1 / 2)"
    by (simp add: reg_stakes_def sample_node_def getTotalStake_def values_of_def
        calculatePriority_def Number_def to_double_eval)
  have p2: "calculatePriority reg_stakes (sample_node ''P2'' 200 (Fin 1) (Fin 0))
       = Fin (5404319552844595 / 2 ^ 53)"
    by (simp add: reg_stakes_def sample_node_def getTotalStake_def values_of_def
        calculatePriority_def Number_def to_double_eval)
  have p3: "calculatePriority reg_stakes (sample_node ''P3'' 300 (Fin 1) (Fin 0))
       = Fin (3152519739159347 / 2 ^ 52)"
    by (simp add: reg_stakes_def sample_node_def getTotalStake_def values_of_def
        calculatePriority_def Number_def to_double_eval)
  have vals: "values_of reg_stakes =
        [sample_node ''P1'' 100 (Fin 1) (Fin 0), sample_node ''P2'' 200 (Fin 1) (Fin 0),
         sample_node ''P3'' 300 (Fin 1) (Fin 0)]"
    by (simp add: reg_stakes_def values_of_def)
  have fin: "\<forall>n\<in>set (values_of reg_stakes). is_fin (calculatePriority reg_stakes n)"
    by (simp add: vals p1 p2 p3 is_fin_def)
  have ne: "reg_stakes \<noteq> []"
    by (simp add: reg_stakes_def)
  have sorted: "sortedNodes reg_stakes =
        [sample_node ''P3'' 300 (Fin 1) (Fin 0), sample_node ''P2'' 200 (Fin 1) (Fin 0),
         sample_node ''P1'' 100 (Fin 1) (Fin 0)]"
    by (simp add: sortedNodes_def vals js_sort_def p1 p2 p3 js_sub_def to_double_eval)
  have len: "length reg_stakes = 3"
    by (simp add: reg_stakes_def)
  have sel: "selectedNode s reg_stakes = Some (sortedNodes reg_stakes ! (s mod 3))" for s
    using proposer_by_stable_priority_order [OF ne fin, of s] len by simp
  show ?thesis
    using ne p1 p2 p3 sorted sel [of 0] sel [of 4] by (simp add: len)
qed

section \<open>Division by the total stake\<close>

lemma calculatePriority_zero_total:
  "getTotalStake reg = 0 \<Longrightarrow> stake n = 0 \<Longrightarrow> calculatePriority reg n = NaN"
  by (simp add: calculatePriority_def Number_def to_double_def)

text \<open>
  A single participant whose stake is beyond the range of the doubles: \<open>Number\<close> gives
  \<open>Infinity\<close> for the active stake and for the total, and the health is NaN.
\<close>

lemma consensus_health_overflow:
  assumes "2 ^ 1024 \<le> amount"
  shows "calculateConsensusHealth [(k, sample_node k amount (Fin 1) (Fin 0))] = NaN"
proof -
  have "Number amount = PInf"
    using assms by (rule Number_overflow)
  then show ?thesis
    by (simp add: calculateConsensusHealth_def getTotalStake_def values_of_def sample_node_def
        to_double_half)
qed

text \<open>
  Claim C2 (zero total stake) against the code. With two participants of stake 0 and the
  reputations 0.2 and 0.9, \<open>Number(0n) / Number(0n)\<close> is NaN and both priorities are NaN
  (the claim gives 0.08 and 0.36). The comparator then returns NaN for every pair, the
  sort leaves the insertion order, and slot 0 selects the participant of the lower
  reputation. No error is raised.
\<close>

theorem zero_stake_priority_nan:
  "getTotalStake reg_zero_stake = 0
   \<and> calculatePriority reg_zero_stake (sample_node ''z1'' 0 (to_double 0.2) (Fin 0)) = NaN
   \<and> calculatePriority reg_zero_stake (sample_node ''z2'' 0 (to_double 0.9) (Fin 0)) = NaN
   \<and> sortedNodes reg_zero_stake =
        [sample_node ''z1'' 0 (to_double 0.2) (Fin 0),
         sample_node ''z2'' 0 (to_double 0.9) (Fin 0)]
   \<and> selectedNode 0 reg_zero_stake = Some (sample_node ''z1'' 0 (to_double 0.2) (Fin 0))"
proof -
  have tot: "getTotalStake reg_zero_stake = 0"
    by (simp add: reg_zero_stake_def sample_node_def getTotalStake_def values_of_def)
  have nan: "calculatePriority reg_zero_stake (sample_node name 0 rep seen) = NaN"
    for name rep seen
    using tot by (intro calculatePriority_zero_total) (simp_all add: sample_node_def)
  have vals: "values_of reg_zero_stake =
        [sample_node ''z1'' 0 (to_double 0.2) (Fin 0),
         sample_node ''z2'' 0 (to_double 0.9) (Fin 0)]"
    by (simp add: reg_zero_stake_def values_of_def)
  have sorted: "sortedNodes reg_zero_stake =
        [sample_node ''z1'' 0 (to_double 0.2) (Fin 0),
         sample_node ''z2'' 0 (to_double 0.9) (Fin 0)]"
    by (simp add: sortedNodes_def vals js_sort_def nan js_sub_def)
  have "selectedNode 0 reg_zero_stake = Some (sample_node ''z1'' 0 (to_double 0.2) (Fin 0))"
    by (simp add: selectedNode_def slot_index_def array_get_def sorted)
      (simp add: reg_zero_stake_def)
  then show ?thesis
    using tot nan sorted by simp
qed

text \<open>
  Claim C8 (consensus health) against the code. With the total stake 0, for the empty
  registry and for a registry of participants without stake, \<open>calculateConsensusHealth\<close>
  is \<open>0 / 0\<close>, that is NaN, where the claim gives 0; \<open>calculateAverageReputation\<close>
  beside it returns 0 for the empty registry.
\<close>

theorem consensus_health_nan:
  "getTotalStake [] = 0
   \<and> calculateConsensusHealth [] = NaN
   \<and> calculateAverageReputation [] = Fin 0
   \<and> getTotalStake reg_zero_stake = 0
   \<and> calculateConsensusHealth reg_zero_stake = NaN"
proof -
  have empty: "getTotalStake [] = 0"
    by (simp add: getTotalStake_def values_of_def)
  have tot: "getTotalStake reg_zero_stake = 0"
    by (simp add: reg_zero_stake_def sample_node_def getTotalStake_def values_of_def)
  have zero: "foldl (\<lambda>sum node. sum + stake node) 0 (filter P (values_of reg_zero_stake)) = 0"
    for P
    by (simp add: reg_zero_stake_def sample_node_def values_of_def)
  have "calculateConsensusHealth reg_zero_stake = NaN"
    by (simp add: calculateConsensusHealth_def tot zero Number_def to_double_def)
  moreover have "calculateConsensusHealth [] = NaN"
    by (simp add: calculateConsensusHealth_def empty values_of_def Number_def to_double_def)
  moreover have "calculateAverageReputation [] = Fin 0"
    by (simp add: calculateAverageReputation_def values_of_def)
  ultimately show ?thesis
    using empty tot by simp
qed

section \<open>The link of a proposed block\<close>

text \<open>
  Claim C3 (block assembly) against the code. With the current block at height 4, whose
  \<open>previousHash\<close> is the hash of block 3, the proposed block has the height 5, no
  signatures, and the \<open>previousHash\<close> of the current block, the hash of block 3, not a
  reference to the current block. Two different current blocks with the same
  \<open>previousHash\<close> give the same proposed block, so the field does not identify the
  block it follows.
\<close>

theorem proposeBlock_copies_previousHash:
  "currentBlock state_four = Some block_four
   \<and> height block_four = Fin 4
   \<and> previousHash block_four = ''hash-of-block-3''
   \<and> proposeBlock (Fin 5000) (Inr ''root-5'') ''P1'' state_four =
        Inr \<lparr> height = Fin 5, timestamp = Fin 5000, previousHash = ''hash-of-block-3'',
              transactions = [], neuralStateRoot = ''root-5'', proposer = ''P1'',
              signatures = [] \<rparr>
   \<and> block_four_other \<noteq> block_four
   \<and> proposeBlock (Fin 5000) (Inr ''root-5'') ''P1'' state_four_other =
        proposeBlock (Fin 5000) (Inr ''root-5'') ''P1'' state_four"
  by (simp add: state_four_def block_four_def state_four_other_def block_four_other_def
      proposeBlock_def collectPendingTransactions_def to_double_eval)

section \<open>An empty registry\<close>

text \<open>
  Claim C4 as stated fails: with no participant the slot is NaN, \<open>sortedNodes[slot]\<close> is
  \<open>undefined\<close>, and \<open>isProposer\<close> returns false; nothing is thrown.
\<close>

theorem no_participants_counterexample:
  "selectedNode 7 [] = None
   \<and> isProposer 7000 ''n1'' [] = Inr False
   \<and> isProposer 7000 ''n1'' [] \<noteq> Inl (Thrown ''NoEligibleProposers'')"
  by (simp add: isProposer_def selectedNode_def slot_index_def array_get_def sortedNodes_def
      js_sort_def values_of_def)

text \<open>
  Claim C4, amended (empty registry). For every slot and every local node, when the
  registry holds no participant, the selection yields no node and \<open>isProposer\<close> returns
  false without raising an error.
\<close>

theorem no_participants_no_proposer:
  "selectedNode s [] = None \<and> isProposer now nodeId [] = Inr False"
  by (simp add: isProposer_def selectedNode_def slot_index_def array_get_def)

section \<open>Pruning\<close>

lemma pruneLoop_filter:
  "pruneLoop now todo (reg, emitted) =
     (filter (\<lambda>e. fst e \<notin> fst ` set (filter (\<lambda>e. is_inactive now (snd e)) todo)) reg,
      emitted @ map fst (filter (\<lambda>e. is_inactive now (snd e)) todo))"
proof (induction todo arbitrary: reg emitted)
  case Nil
  then show ?case by simp
next
  case (Cons entry todo)
  obtain k node where entry: "entry = (k, node)"
    by (cases entry)
  let ?S = "fst ` set (filter (\<lambda>e. is_inactive now (snd e)) todo)"
  show ?case
  proof (cases "is_inactive now node")
    case True
    have del: "filter (\<lambda>e. fst e \<notin> ?S) (Map_delete k reg)
        = filter (\<lambda>e. fst e \<notin> insert k ?S) reg"
      unfolding Map_delete_def filter_filter by (rule filter_cong) simp_all
    have "pruneLoop now (entry # todo) (reg, emitted)
        = pruneLoop now todo (Map_delete k reg, emitted @ [k])"
      using True by (simp add: entry is_inactive_def)
    also have "\<dots> = (filter (\<lambda>e. fst e \<notin> insert k ?S) reg,
        (emitted @ [k]) @ map fst (filter (\<lambda>e. is_inactive now (snd e)) todo))"
      by (simp only: Cons.IH del)
    finally show ?thesis
      using True by (simp add: entry)
  next
    case False
    have "pruneLoop now (entry # todo) (reg, emitted) = pruneLoop now todo (reg, emitted)"
      using False by (simp add: entry is_inactive_def)
    then show ?thesis
      using False by (simp add: Cons.IH entry)
  qed
qed

lemma key_determines_entry:
  assumes "distinct (map fst reg)" "e \<in> set reg" "e' \<in> set reg" "fst e = fst e'"
  shows "e = e'"
  using assms by (meson distinct_map inj_onD)

lemma pruneInactiveNodes_filter:
  assumes "distinct (map fst reg)"
  shows "pruneInactiveNodes now reg =
     (filter (\<lambda>e. \<not> is_inactive now (snd e)) reg,
      map fst (filter (\<lambda>e. is_inactive now (snd e)) reg))"
proof -
  have "filter (\<lambda>e. fst e \<notin> fst ` set (filter (\<lambda>e. is_inactive now (snd e)) reg)) reg
      = filter (\<lambda>e. \<not> is_inactive now (snd e)) reg"
  proof (rule filter_cong [OF refl])
    fix e assume e: "e \<in> set reg"
    show "(fst e \<notin> fst ` set (filter (\<lambda>e. is_inactive now (snd e)) reg))
        = (\<not> is_inactive now (snd e))"
    proof
      assume "fst e \<notin> fst ` set (filter (\<lambda>e. is_inactive now (snd e)) reg)"
      then show "\<not> is_inactive now (snd e)"
        using e by (auto simp: image_iff)
    next
      assume active: "\<not> is_inactive now (snd e)"
      show "fst e \<notin> fst ` set (filter (\<lambda>e. is_inactive now (snd e)) reg)"
      proof
        assume "fst e \<in> fst ` set (filter (\<lambda>e. is_inactive now (snd e)) reg)"
        then obtain e' where e': "e' \<in> set reg" "is_inactive now (snd e')" "fst e = fst e'"
          by auto
        then have "e = e'"
          using key_determines_entry [OF assms e] by blast
        then show False
          using active e'(2) by simp
      qed
    qed
  qed
  then show ?thesis
    by (simp add: pruneInactiveNodes_def pruneLoop_filter)
qed

text \<open>
  Claim C7 (pruning). \<open>maxInactivity\<close> is 3600000 ms. After \<open>pruneInactiveNodes\<close> at
  the clock \<open>now\<close>, on a map (whose keys are distinct), a participant with
  \<open>now - lastProposal > maxInactivity\<close> has no entry left, and a participant with
  \<open>now - lastProposal \<le> maxInactivity\<close> still has its entry, with the same record.
\<close>

theorem pruning_correct:
  assumes "distinct (map fst reg)" and "(k, node) \<in> set reg"
  shows "maxInactivity = Fin 3600000
       \<and> (js_gt (js_sub now (lastProposal node)) maxInactivity
            \<longrightarrow> k \<notin> fst ` set (fst (pruneInactiveNodes now reg)))
       \<and> (js_le (js_sub now (lastProposal node)) maxInactivity
            \<longrightarrow> (k, node) \<in> set (fst (pruneInactiveNodes now reg)))"
proof -
  have res: "fst (pruneInactiveNodes now reg) = filter (\<lambda>e. \<not> is_inactive now (snd e)) reg"
    using assms(1) by (simp add: pruneInactiveNodes_filter)
  have gone: "k \<notin> fst ` set (fst (pruneInactiveNodes now reg))"
    if old: "js_gt (js_sub now (lastProposal node)) maxInactivity"
  proof
    assume "k \<in> fst ` set (fst (pruneInactiveNodes now reg))"
    then obtain e where e: "e \<in> set reg" "\<not> is_inactive now (snd e)" "fst e = k"
      unfolding res by auto
    then have "e = (k, node)"
      using key_determines_entry [OF assms(1) e(1) assms(2)] by simp
    then show False
      using e(2) old by (simp add: is_inactive_def)
  qed
  have kept: "(k, node) \<in> set (fst (pruneInactiveNodes now reg))"
    if "js_le (js_sub now (lastProposal node)) maxInactivity"
    using that assms(2) unfolding res by (simp add: is_inactive_def js_le_def)
  show ?thesis
    using gone kept by (simp add: maxInactivity_def)
qed

text \<open>
  At the clock 3661000 the participant last seen at 0 is pruned and the participant last
  seen at 3000000 is kept.
\<close>

theorem pruning_correct_witness:
  "distinct (map fst reg_idle)
   \<and> (''old'', sample_node ''old'' 10 (Fin 1) (Fin 0)) \<in> set reg_idle
   \<and> (''new'', sample_node ''new'' 10 (Fin 1) (Fin 3000000)) \<in> set reg_idle
   \<and> js_gt (js_sub (Fin 3661000) (lastProposal (sample_node ''old'' 10 (Fin 1) (Fin 0))))
        maxInactivity
   \<and> js_le (js_sub (Fin 3661000) (lastProposal (sample_node ''new'' 10 (Fin 1) (Fin 3000000))))
        maxInactivity
   \<and> ''old'' \<notin> fst ` set (fst (pruneInactiveNodes (Fin 3661000) reg_idle))
   \<and> (''new'', sample_node ''new'' 10 (Fin 1) (Fin 3000000))
        \<in> set (fst (pruneInactiveNodes (Fin 3661000) reg_idle))"
proof -
  have keys: "distinct (map fst reg_idle)"
    by (simp add: reg_idle_def)
  have old: "(''old'', sample_node ''old'' 10 (Fin 1) (Fin 0)) \<in> set reg_idle"
    by (simp add: reg_idle_def)
  have new: "(''new'', sample_node ''new'' 10 (Fin 1) (Fin 3000000)) \<in> set reg_idle"
    by (simp add: reg_idle_def)
  have idle: "js_gt (js_sub (Fin 3661000)
      (lastProposal (sample_node ''old'' 10 (Fin 1) (Fin 0)))) maxInactivity"
    by (simp add: sample_node_def maxInactivity_def js_sub_def to_double_eval)
  have live: "js_le (js_sub (Fin 3661000)
      (lastProposal (sample_node ''new'' 10 (Fin 1) (Fin 3000000)))) maxInactivity"
    by (simp add: sample_node_def maxInactivity_def js_sub_def js_le_def to_double_eval)
  have gone: "''old'' \<notin> fst ` set (fst (pruneInactiveNodes (Fin 3661000) reg_idle))"
    using pruning_correct [OF keys old, of "Fin 3661000"] idle by blast
  have kept: "(''new'', sample_node ''new'' 10 (Fin 1) (Fin 3000000))
      \<in> set (fst (pruneInactiveNodes (Fin 3661000) reg_idle))"
    using pruning_correct [OF keys new, of "Fin 3661000"] live by blast
  show ?thesis
    using keys old new idle live gone kept by (intro conjI)
qed

section \<open>Failures during the epoch updates\<close>

lemma succeeds_Inr: "succeeds evaluate entry \<Longrightarrow> \<exists>v. evaluate (snd entry) = Inr v"
  by (cases "evaluate (snd entry)") (simp_all add: succeeds_def)

text \<open>
  With the evaluations as the source has them (the constant score 0, never rejected)
  both loops run to the end.
\<close>

lemma updateNodeWeights_stub:
  "updateNodeWeights evaluateNodePerformance reg
     = (map (\<lambda>entry. with_weight entry (Fin 0)) reg, None)"
  by (induction reg) (auto simp: evaluateNodePerformance_def with_weight_def)

lemma recalculateReputations_stub:
  "recalculateReputations (Inr c) calculateNeuralAlignment reg
     = (map (\<lambda>entry. with_reputation entry (Fin 0)) reg, None)"
  unfolding recalculateReputations_def
  by (induction reg) (auto simp: calculateNeuralAlignment_def with_reputation_def)

text \<open>A loop whose evaluation is rejected stops at the first rejection.\<close>

lemma updateNodeWeights_first_failure:
  assumes "i < length reg"
    and "evaluate (snd (reg ! i)) = Inl e"
    and "\<forall>j<i. succeeds evaluate (reg ! j)"
  shows "\<exists>reg'. updateNodeWeights evaluate reg = (reg', Some e)
       \<and> length reg' = length reg
       \<and> (\<forall>j<i. \<exists>v. evaluate (snd (reg ! j)) = Inr v \<and> reg' ! j = with_weight (reg ! j) v)
       \<and> (\<forall>j. i \<le> j \<and> j < length reg \<longrightarrow> reg' ! j = reg ! j)"
  using assms
proof (induction reg arbitrary: i)
  case Nil
  then show ?case by simp
next
  case (Cons entry rest)
  obtain k node where entry: "entry = (k, node)"
    by (cases entry)
  show ?case
  proof (cases i)
    case 0
    then have "evaluate node = Inl e"
      using Cons.prems(2) by (simp add: entry)
    then have "updateNodeWeights evaluate (entry # rest) = (entry # rest, Some e)"
      by (simp add: entry)
    then show ?thesis
      using 0 by simp
  next
    case (Suc i')
    have "succeeds evaluate entry"
      using Cons.prems(3) Suc by (metis nth_Cons_0 zero_less_Suc)
    then obtain v where v: "evaluate node = Inr v"
      using succeeds_Inr entry by fastforce
    have "i' < length rest" "evaluate (snd (rest ! i')) = Inl e"
      using Cons.prems(1,2) Suc by simp_all
    moreover have "\<forall>j<i'. succeeds evaluate (rest ! j)"
      using Cons.prems(3) Suc by (metis Suc_less_eq nth_Cons_Suc)
    ultimately obtain rest' where rest':
      "updateNodeWeights evaluate rest = (rest', Some e)"
      "length rest' = length rest"
      "\<forall>j<i'. \<exists>v. evaluate (snd (rest ! j)) = Inr v \<and> rest' ! j = with_weight (rest ! j) v"
      "\<forall>j. i' \<le> j \<and> j < length rest \<longrightarrow> rest' ! j = rest ! j"
      using Cons.IH [of i'] by blast
    let ?reg' = "with_weight entry v # rest'"
    have run: "updateNodeWeights evaluate (entry # rest) = (?reg', Some e)"
      using v rest'(1) by (simp add: entry with_weight_def)
    have len: "length ?reg' = length (entry # rest)"
      using rest'(2) by simp
    have before: "\<exists>v. evaluate (snd ((entry # rest) ! j)) = Inr v
        \<and> ?reg' ! j = with_weight ((entry # rest) ! j) v" if "j < i" for j
    proof (cases j)
      case 0
      then show ?thesis using v by (simp add: entry)
    next
      case (Suc j')
      then show ?thesis using rest'(3) that \<open>i = Suc i'\<close> by simp
    qed
    have after: "?reg' ! j = (entry # rest) ! j" if "i \<le> j \<and> j < length (entry # rest)" for j
    proof (cases j)
      case 0
      then show ?thesis using that \<open>i = Suc i'\<close> by simp
    next
      case (Suc j')
      then show ?thesis using rest'(4) that \<open>i = Suc i'\<close> by simp
    qed
    show ?thesis
      using run len before after by blast
  qed
qed

lemma reputationLoop_first_failure:
  assumes "i < length reg"
    and "align (snd (reg ! i)) = Inl e"
    and "\<forall>j<i. succeeds align (reg ! j)"
  shows "\<exists>reg'. reputationLoop align reg = (reg', Some e)
       \<and> length reg' = length reg
       \<and> (\<forall>j<i. \<exists>v. align (snd (reg ! j)) = Inr v \<and> reg' ! j = with_reputation (reg ! j) v)
       \<and> (\<forall>j. i \<le> j \<and> j < length reg \<longrightarrow> reg' ! j = reg ! j)"
  using assms
proof (induction reg arbitrary: i)
  case Nil
  then show ?case by simp
next
  case (Cons entry rest)
  obtain k node where entry: "entry = (k, node)"
    by (cases entry)
  show ?case
  proof (cases i)
    case 0
    then have "align node = Inl e"
      using Cons.prems(2) by (simp add: entry)
    then have "reputationLoop align (entry # rest) = (entry # rest, Some e)"
      by (simp add: entry)
    then show ?thesis
      using 0 by simp
  next
    case (Suc i')
    have "succeeds align entry"
      using Cons.prems(3) Suc by (metis nth_Cons_0 zero_less_Suc)
    then obtain v where v: "align node = Inr v"
      using succeeds_Inr entry by fastforce
    have "i' < length rest" "align (snd (rest ! i')) = Inl e"
      using Cons.prems(1,2) Suc by simp_all
    moreover have "\<forall>j<i'. succeeds align (rest ! j)"
      using Cons.prems(3) Suc by (metis Suc_less_eq nth_Cons_Suc)
    ultimately obtain rest' where rest':
      "reputationLoop align rest = (rest', Some e)"
      "length rest' = length rest"
      "\<forall>j<i'. \<exists>v. align (snd (rest ! j)) = Inr v \<and> rest' ! j = with_reputation (rest ! j) v"
      "\<forall>j. i' \<le> j \<and> j < length rest \<longrightarrow> rest' ! j = rest ! j"
      using Cons.IH [of i'] by blast
    let ?reg' = "with_reputation entry v # rest'"
    have run: "reputationLoop align (entry # rest) = (?reg', Some e)"
      using v rest'(1) by (simp add: entry with_reputation_def)
    have len: "length ?reg' = length (entry # rest)"
      using rest'(2) by simp
    have before: "\<exists>v. align (snd ((entry # rest) ! j)) = Inr v
        \<and> ?reg' ! j = with_reputation ((entry # rest) ! j) v" if "j < i" for j
    proof (cases j)
      case 0
      then show ?thesis using v by (simp add: entry)
    next
      case (Suc j')
      then show ?thesis using rest'(3) that \<open>i = Suc i'\<close> by simp
    qed
    have after: "?reg' ! j = (entry # rest) ! j" if "i \<le> j \<and> j < length (entry # rest)" for j
    proof (cases j)
      case 0
      then show ?thesis using that \<open>i = Suc i'\<close> by simp
    next
      case (Suc j')
      then show ?thesis using rest'(4) that \<open>i = Suc i'\<close> by simp
    qed
    show ?thesis
      using run len before after by blast
  qed
qed

text \<open>
  Claim C9 as stated fails: the update loops have no \<open>try\<close> of their own. When the
  evaluation of the first participant \<open>a\<close> is rejected, the loop is left at once: the
  second participant \<open>b\<close>, whose evaluation gives 1, keeps the weight 0.5 instead of the
  0.55 its update would give, and the epoch ends there with the error logged, the
  reputation update and the pruning not run.
\<close>

theorem epoch_failure_counterexample:
  "evaluate_fails_a (snd (reg_tie_ab ! 0)) = Inl (Thrown ''EvaluationUnavailable'')
   \<and> evaluate_fails_a (snd (reg_tie_ab ! 1)) = Inr (Fin 1)
   \<and> weight (snd (reg_tie_ab ! 1)) = Fin 0.5
   \<and> calculateNewWeight (snd (reg_tie_ab ! 1)) (Fin 1) = Fin (2476979795053773 / 2 ^ 52)
   \<and> updateNodeWeights evaluate_fails_a reg_tie_ab
        = (reg_tie_ab, Some (Thrown ''EvaluationUnavailable''))
   \<and> reputationLoop evaluate_fails_a reg_tie_ab
        = (reg_tie_ab, Some (Thrown ''EvaluationUnavailable''))
   \<and> weight (snd (fst (updateNodeWeights evaluate_fails_a reg_tie_ab) ! 1))
        \<noteq> calculateNewWeight (snd (reg_tie_ab ! 1)) (Fin 1)
   \<and> epochTransition evaluate_fails_a (Inr ()) calculateNeuralAlignment (Fin 0) reg_tie_ab
        = (reg_tie_ab, [], Some (Thrown ''EvaluationUnavailable''))"
  by (simp add: reg_tie_ab_def sample_node_def evaluate_fails_a_def calculateNewWeight_def
      js_sub_def Math_max_def Math_min_def epochTransition_def to_double_eval)

text \<open>
  Claim C9, amended (a failing evaluation). The first failure ends the epoch; the error
  is the one the \<open>catch\<close> of the epoch logs, and no pruning takes place.
  \<^item> When the performance evaluation of the participant at position \<open>i\<close> of the
    iteration order is the first to fail, with the error \<open>e\<close>: the participants before
    \<open>i\<close> have their new weight, the participant \<open>i\<close> and every participant after it
    are unchanged, no reputation is updated, and the epoch ends with that map and \<open>e\<close>.
  \<^item> When the weight update has completed, giving the map \<open>reg1\<close>, and
    \<open>computeConsensus\<close> fails with \<open>e\<close>: the epoch ends with \<open>reg1\<close> and \<open>e\<close>.
  \<^item> When the weight update has completed, giving the map \<open>reg1\<close>, and the alignment of
    the participant at position \<open>i\<close> is the first to fail, with the error \<open>e\<close>: the
    participants before \<open>i\<close> have their new reputation, the participant \<open>i\<close> and
    every participant after it keep the reputation they had, and the epoch ends with that
    map and \<open>e\<close>.
\<close>

theorem epoch_stops_at_first_failure:
  "(i < length reg \<and> evaluate (snd (reg ! i)) = Inl e
      \<and> (\<forall>j<i. succeeds evaluate (reg ! j))
    \<longrightarrow> (\<exists>reg'. updateNodeWeights evaluate reg = (reg', Some e)
          \<and> epochTransition evaluate consensus align now reg = (reg', [], Some e)
          \<and> length reg' = length reg
          \<and> (\<forall>j<i. \<exists>v. evaluate (snd (reg ! j)) = Inr v
                \<and> reg' ! j = with_weight (reg ! j) v)
          \<and> (\<forall>j. i \<le> j \<and> j < length reg \<longrightarrow> reg' ! j = reg ! j)))
   \<and> (updateNodeWeights evaluate reg = (reg1, None)
    \<longrightarrow> epochTransition evaluate (Inl e) align now reg = (reg1, [], Some e))
   \<and> (updateNodeWeights evaluate reg = (reg1, None)
      \<and> i < length reg1 \<and> align (snd (reg1 ! i)) c = Inl e
      \<and> (\<forall>j<i. succeeds (\<lambda>node. align node c) (reg1 ! j))
    \<longrightarrow> (\<exists>reg2. recalculateReputations (Inr c) align reg1 = (reg2, Some e)
          \<and> epochTransition evaluate (Inr c) align now reg = (reg2, [], Some e)
          \<and> length reg2 = length reg1
          \<and> (\<forall>j<i. \<exists>v. align (snd (reg1 ! j)) c = Inr v
                \<and> reg2 ! j = with_reputation (reg1 ! j) v)
          \<and> (\<forall>j. i \<le> j \<and> j < length reg1 \<longrightarrow> reg2 ! j = reg1 ! j)))"
proof (intro conjI impI)
  assume a: "i < length reg \<and> evaluate (snd (reg ! i)) = Inl e
      \<and> (\<forall>j<i. succeeds evaluate (reg ! j))"
  then obtain reg' where w:
    "updateNodeWeights evaluate reg = (reg', Some e)"
    "length reg' = length reg"
    "\<forall>j<i. \<exists>v. evaluate (snd (reg ! j)) = Inr v \<and> reg' ! j = with_weight (reg ! j) v"
    "\<forall>j. i \<le> j \<and> j < length reg \<longrightarrow> reg' ! j = reg ! j"
    using updateNodeWeights_first_failure [of i reg evaluate e] by blast
  have "epochTransition evaluate consensus align now reg = (reg', [], Some e)"
    using w(1) by (simp add: epochTransition_def)
  then show "\<exists>reg'. updateNodeWeights evaluate reg = (reg', Some e)
          \<and> epochTransition evaluate consensus align now reg = (reg', [], Some e)
          \<and> length reg' = length reg
          \<and> (\<forall>j<i. \<exists>v. evaluate (snd (reg ! j)) = Inr v
                \<and> reg' ! j = with_weight (reg ! j) v)
          \<and> (\<forall>j. i \<le> j \<and> j < length reg \<longrightarrow> reg' ! j = reg ! j)"
    using w by blast
next
  assume "updateNodeWeights evaluate reg = (reg1, None)"
  then show "epochTransition evaluate (Inl e) align now reg = (reg1, [], Some e)"
    by (simp add: epochTransition_def recalculateReputations_def)
next
  assume b: "updateNodeWeights evaluate reg = (reg1, None)
      \<and> i < length reg1 \<and> align (snd (reg1 ! i)) c = Inl e
      \<and> (\<forall>j<i. succeeds (\<lambda>node. align node c) (reg1 ! j))"
  then obtain reg2 where r:
    "reputationLoop (\<lambda>node. align node c) reg1 = (reg2, Some e)"
    "length reg2 = length reg1"
    "\<forall>j<i. \<exists>v. align (snd (reg1 ! j)) c = Inr v \<and> reg2 ! j = with_reputation (reg1 ! j) v"
    "\<forall>j. i \<le> j \<and> j < length reg1 \<longrightarrow> reg2 ! j = reg1 ! j"
    using reputationLoop_first_failure [of i reg1 "\<lambda>node. align node c" e] by blast
  have rec: "recalculateReputations (Inr c) align reg1 = (reg2, Some e)"
    using r(1) by (simp add: recalculateReputations_def)
  then have "epochTransition evaluate (Inr c) align now reg = (reg2, [], Some e)"
    using b by (simp add: epochTransition_def)
  then show "\<exists>reg2. recalculateReputations (Inr c) align reg1 = (reg2, Some e)
          \<and> epochTransition evaluate (Inr c) align now reg = (reg2, [], Some e)
          \<and> length reg2 = length reg1
          \<and> (\<forall>j<i. \<exists>v. align (snd (reg1 ! j)) c = Inr v
                \<and> reg2 ! j = with_reputation (reg1 ! j) v)
          \<and> (\<forall>j. i \<le> j \<and> j < length reg1 \<longrightarrow> reg2 ! j = reg1 ! j)"
    using rec r by blast
qed

text \<open>
  With the performance evaluation of the second participant \<open>b\<close> rejected, the first
  participant has its new weight and \<open>b\<close> is unchanged. With the performance evaluation
  of the source and the alignment of \<open>b\<close> rejected, both have their new weight, the
  first has its new reputation and \<open>b\<close> keeps its reputation.
\<close>

theorem epoch_stops_at_first_failure_witness:
  "1 < length reg_tie_ab
   \<and> evaluate_fails_b (snd (reg_tie_ab ! 1)) = Inl (Thrown ''EvaluationUnavailable'')
   \<and> succeeds evaluate_fails_b (reg_tie_ab ! 0)
   \<and> (\<exists>reg'. epochTransition evaluate_fails_b (Inr ()) calculateNeuralAlignment (Fin 0)
                  reg_tie_ab = (reg', [], Some (Thrown ''EvaluationUnavailable''))
          \<and> reg' ! 0 = with_weight (reg_tie_ab ! 0) (Fin 1)
          \<and> reg' ! 1 = reg_tie_ab ! 1)
   \<and> updateNodeWeights evaluateNodePerformance reg_tie_ab
        = (map (\<lambda>entry. with_weight entry (Fin 0)) reg_tie_ab, None)
   \<and> (\<exists>reg2. epochTransition evaluateNodePerformance (Inr ())
                  (\<lambda>node consensus. evaluate_fails_b node) (Fin 0) reg_tie_ab
                = (reg2, [], Some (Thrown ''EvaluationUnavailable''))
          \<and> reg2 ! 0 = with_reputation (with_weight (reg_tie_ab ! 0) (Fin 0)) (Fin 1)
          \<and> reg2 ! 1 = with_weight (reg_tie_ab ! 1) (Fin 0))"
proof -
  let ?e = "Thrown ''EvaluationUnavailable''"
  let ?reg1 = "map (\<lambda>entry. with_weight entry (Fin 0)) reg_tie_ab"
  have len: "1 < length reg_tie_ab"
    by (simp add: reg_tie_ab_def)
  have fails: "evaluate_fails_b (snd (reg_tie_ab ! 1)) = Inl ?e"
    by (simp add: reg_tie_ab_def sample_node_def evaluate_fails_b_def)
  have ok: "succeeds evaluate_fails_b (reg_tie_ab ! 0)"
    by (simp add: reg_tie_ab_def sample_node_def evaluate_fails_b_def succeeds_def)
  then have before: "\<forall>j<1. succeeds evaluate_fails_b (reg_tie_ab ! j)"
    by simp
  have ok0: "evaluate_fails_b (snd (reg_tie_ab ! 0)) = Inr (Fin 1)"
    by (simp add: reg_tie_ab_def sample_node_def evaluate_fails_b_def)
  have first: "\<exists>reg'. epochTransition evaluate_fails_b (Inr ()) calculateNeuralAlignment (Fin 0)
                  reg_tie_ab = (reg', [], Some ?e)
          \<and> reg' ! 0 = with_weight (reg_tie_ab ! 0) (Fin 1)
          \<and> reg' ! 1 = reg_tie_ab ! 1"
    using epoch_stops_at_first_failure [of 1 reg_tie_ab evaluate_fails_b ?e "Inr ()"
        calculateNeuralAlignment "Fin 0"] len fails before ok0
    by fastforce
  have stub: "updateNodeWeights evaluateNodePerformance reg_tie_ab = (?reg1, None)"
    by (rule updateNodeWeights_stub)
  have len1: "1 < length ?reg1"
    using len by simp
  have fails1: "evaluate_fails_b (snd (?reg1 ! 1)) = Inl ?e"
    by (simp add: reg_tie_ab_def sample_node_def evaluate_fails_b_def with_weight_def)
  have ok1: "evaluate_fails_b (snd (?reg1 ! 0)) = Inr (Fin 1)"
    by (simp add: reg_tie_ab_def sample_node_def evaluate_fails_b_def with_weight_def)
  then have before1: "\<forall>j<1. succeeds (\<lambda>node. evaluate_fails_b node) (?reg1 ! j)"
    by (simp add: succeeds_def)
  have nth0: "?reg1 ! 0 = with_weight (reg_tie_ab ! 0) (Fin 0)"
    and nth1: "?reg1 ! 1 = with_weight (reg_tie_ab ! 1) (Fin 0)"
    by (simp_all add: reg_tie_ab_def)
  have second: "\<exists>reg2. epochTransition evaluateNodePerformance (Inr ())
                  (\<lambda>node consensus. evaluate_fails_b node) (Fin 0) reg_tie_ab
                = (reg2, [], Some ?e)
          \<and> reg2 ! 0 = with_reputation (with_weight (reg_tie_ab ! 0) (Fin 0)) (Fin 1)
          \<and> reg2 ! 1 = with_weight (reg_tie_ab ! 1) (Fin 0)"
    using epoch_stops_at_first_failure [of 1 reg_tie_ab evaluateNodePerformance ?e "Inr ()"
        "\<lambda>node consensus. evaluate_fails_b node" "Fin 0" ?reg1 "()"]
      stub len1 fails1 before1 ok1 nth0 nth1
    by fastforce
  show ?thesis
    using len fails ok first stub second by (intro conjI)
qed

end
